theory Spec2Isabelle
  imports Complex_Main "HOL-Library.Multiset" "HOL-Library.AList" "HOL-Library.Sublist"
begin

section \<open>The timescale writer: data model\<close>

text \<open>
  A shallow embedding of \<^verbatim>\<open>listenbrainz/timescale_writer/timescale_writer.py\<close>.
  Exceptions are values, every call to a collaborator (storage, redis, the broker, the
  metrics sink, MessyBrainz) is written to a list of events, and the calls that the source
  guards with \<^verbatim>\<open>try\<close>, together with the recent-listens update, the conversion of a
  record and \<^verbatim>\<open>metrics.set\<close>, take their outcome from an environment record. The
  logger, \<^verbatim>\<open>time.sleep\<close>, \<^verbatim>\<open>ujson.dumps\<close> and the reconnection are taken to
  return. The two retry loops may fail to return (\<open>None\<close>). A Python float is the real
  number that the double denotes; floats are compared as these numbers, and the sum of two
  floats is the exact sum rounded to the nearest double, as the interpreter computes it. The
  numbers of a decoded body are integers.
\<close>

datatype exn =
    ValueError
  | KeyError
  | TypeError
  | OperationalError
  | ConnectionClosed
  | BadDataException
  | ErrorAddingException
  | OtherException

datatype 'a outcome = Returns 'a | Raises exn

text \<open>
  Values decoded by \<^verbatim>\<open>ujson.loads\<close>. A dict is an association list in insertion
  order; the first entry of a key is the one that counts.
\<close>

datatype json =
    JNull
  | JBool bool
  | JNum int
  | JStr string
  | JArr "json list"
  | JObj "(string \<times> json) list"

text \<open>
  Modelled from the spec: the class \<^verbatim>\<open>Listen\<close> of \<^verbatim>\<open>listenbrainz.listen\<close>
  is not part of the sources at hand. It is the validated domain object that owns a
  timestamp (seconds since epoch), a user name and the metadata mapping; the fields the
  writer reads are \<^verbatim>\<open>ts_since_epoch\<close> (an integer), \<^verbatim>\<open>user_name\<close> and
  \<^verbatim>\<open>data['track_name']\<close> (strings, which \<^verbatim>\<open>'%s'\<close> leaves as they are).
\<close>

record listen =
  ts_since_epoch :: int
  user_name :: string
  data :: "string \<rightharpoonup> string"

type_synonym row = "int \<times> string \<times> string"

text \<open>
  A connection is named by a number; a channel is named by the connection it was opened
  on. The events are the calls the writer makes to its collaborators, in order; a call
  that can raise records the exception it raised, if any. A logged message is its format
  string: exceptions carry no text here, so \<^verbatim>\<open>%s\<close> stands where the source puts
  \<^verbatim>\<open>str(err)\<close>.
\<close>

datatype event =
    LsInsert "listen list" "exn option"
  | IncrementListenCountForDay nat "exn option"
  | BasicPublish nat string "listen list" "exn option"
  | UpdateRecentListens "listen list" "exn option"
  | MetricsSet int int "exn option"
  | BasicAck nat nat "exn option"
  | ConnectToRabbitmq
  | Sleep nat
  | LogError string
  | SubmitListens "json list" "exn option"

text \<open>
  The environment of one delivery: what each collaborator answers. \<open>basic_publish\<close> and
  \<open>basic_ack\<close> answer by attempt number, since the writer retries them;
  \<open>monotonic\<close> is what the clock reads at the one check of an insertion, and
  \<open>metrics_set\<close> is what the metrics sink answers to the two totals.
  \<open>from_json\<close> (\<^verbatim>\<open>Listen.from_json\<close>), \<open>py_sorted\<close> (the builtin on decoded
  values) and \<open>MAX_ITEMS_PER_MESSYBRAINZ_LOOKUP\<close> are not defined in the file and are
  parameters.
\<close>

record env =
  ls_insert :: "listen list \<Rightarrow> row list outcome"
  increment_listen_count_for_day :: "nat \<Rightarrow> unit outcome"
  basic_publish :: "nat \<Rightarrow> unit outcome"
  update_recent_listens :: "listen list \<Rightarrow> unit outcome"
  monotonic :: real
  metrics_set :: "int \<Rightarrow> int \<Rightarrow> unit outcome"
  basic_ack :: "nat \<Rightarrow> unit outcome"
  submit_listens :: "json list \<Rightarrow> json outcome"
  from_json :: "json \<Rightarrow> listen outcome"
  py_sorted :: "json list \<Rightarrow> json list outcome"
  MAX_ITEMS_PER_MESSYBRAINZ_LOOKUP :: nat
  UNIQUE_EXCHANGE :: string

record subscriber =
  connection :: nat
  incoming_ch :: nat
  unique_ch :: nat
  incoming_listens :: int
  unique_listens :: int
  metric_submission_time :: real

text \<open>
  The interval is the integer 60 in the source; added to a float it is the float 60.
\<close>

definition METRIC_UPDATE_INTERVAL :: real where
  "METRIC_UPDATE_INTERVAL = 60"

definition LISTEN_INSERT_ERROR_SENTINEL :: int where
  "LISTEN_INSERT_ERROR_SENTINEL = - 1"

definition ERROR_RETRY_DELAY :: nat where
  "ERROR_RETRY_DELAY = 3"

section \<open>Floating-point addition\<close>

text \<open>
  \<^verbatim>\<open>x + y\<close> on Python floats is the IEEE-754 binary64 sum: the exact sum rounded to the
  nearest double, ties to the even significand. \<open>binade a\<close> is the exponent \<open>e\<close> with
  \<open>2 ^ e \<le> a < 2 ^ (e + 1)\<close>, kept within the exponents of doubles (from -1022, below
  which the doubles are subnormal and equally spaced, to 1023); a double of that binade is a
  multiple of \<open>2 ^ (e - 52)\<close>. The only sum of an insertion is \<^verbatim>\<open>deadline + 60\<close>,
  which is a finite double for every finite deadline: 60 is less than half the spacing of the
  largest doubles, so the sum never rounds to infinity, and no infinity is needed here.
\<close>

fun halvings :: "nat \<Rightarrow> real \<Rightarrow> nat" where
  "halvings 0 a = 0"
| "halvings (Suc n) a = (if a < 2 then 0 else Suc (halvings n (a / 2)))"

fun doublings :: "nat \<Rightarrow> real \<Rightarrow> nat" where
  "doublings 0 a = 0"
| "doublings (Suc n) a = (if 1 \<le> a then 0 else Suc (doublings n (2 * a)))"

definition binade :: "real \<Rightarrow> int" where
  "binade a = (if 1 \<le> a then int (halvings 1023 a) else - int (doublings 1022 a))"

definition pow2 :: "int \<Rightarrow> real" where
  "pow2 e = (if 0 \<le> e then 2 ^ nat e else 1 / 2 ^ nat (- e))"

definition round_half_even :: "real \<Rightarrow> int" where
  "round_half_even x =
     (let f = \<lfloor>x\<rfloor>; d = x - of_int f
      in if d < 1 / 2 then f else if 1 / 2 < d then f + 1 else if even f then f else f + 1)"

definition round_binary64 :: "real \<Rightarrow> real" where
  "round_binary64 x =
     (let a = \<bar>x\<bar>; q = pow2 (binade a - 52)
      in sgn x * (of_int (round_half_even (a / q)) * q))"

definition float_add :: "real \<Rightarrow> real \<Rightarrow> real" where
  "float_add x y = round_binary64 (x + y)"

section \<open>Connection handling\<close>

text \<open>
  Modelled from the spec: \<^verbatim>\<open>utils.connect_to_rabbitmq\<close> is not part of the sources
  at hand; it returns a live connection, which is a new object. The method of the writer
  stores it in \<^verbatim>\<open>self.connection\<close> and assigns nothing else.
\<close>

definition connect_to_rabbitmq :: "subscriber \<Rightarrow> subscriber" where
  "connect_to_rabbitmq s = s\<lparr>connection := Suc (connection s)\<rparr>"

text \<open>
  The channel set-up of \<^verbatim>\<open>start\<close>: after connecting, both channels are opened on
  the connection just made.
\<close>

definition open_channels :: "subscriber \<Rightarrow> subscriber" where
  "open_channels s =
     (let s1 = connect_to_rabbitmq s;
          s2 = s1\<lparr>incoming_ch := connection s1\<rparr>
      in s2\<lparr>unique_ch := connection s2\<rparr>)"

section \<open>The reconciliation key\<close>

definition digit_char :: "nat \<Rightarrow> char" where
  "digit_char d = ''0123456789'' ! d"

fun nat_digits :: "nat \<Rightarrow> string" where
  "nat_digits n = (if n < 10 then [digit_char n] else nat_digits (n div 10) @ [digit_char (n mod 10)])"

declare nat_digits.simps [simp del]

text \<open>\<^verbatim>\<open>'%d' % i\<close>\<close>

definition fmt_d :: "int \<Rightarrow> string" where
  "fmt_d i = (if i < 0 then CHR ''-'' # nat_digits (nat (- i)) else nat_digits (nat i))"

text \<open>\<^verbatim>\<open>'%d-%s-%s' % (a, b, c)\<close>\<close>

definition fmt_key :: "int \<Rightarrow> string \<Rightarrow> string \<Rightarrow> string" where
  "fmt_key a b c = fmt_d a @ ''-'' @ b @ ''-'' @ c"

text \<open>The first loop: the dict \<^verbatim>\<open>inserted_index\<close>, of which only the keys are used.\<close>

fun build_inserted_index :: "row list \<Rightarrow> string set \<Rightarrow> string set" where
  "build_inserted_index [] idx = idx"
| "build_inserted_index ((a, b, c) # rows) idx = build_inserted_index rows (insert (fmt_key a b c) idx)"

text \<open>
  The second loop. \<^verbatim>\<open>listen.data['track_name']\<close> raises \<^verbatim>\<open>KeyError\<close> when
  the key is missing, and nothing catches it.
\<close>

definition listen_key :: "listen \<Rightarrow> exn + string" where
  "listen_key l =
     (case data l ''track_name'' of
        None \<Rightarrow> Inl KeyError
      | Some t \<Rightarrow> Inr (fmt_key (ts_since_epoch l) t (user_name l)))"

fun select_unique :: "string set \<Rightarrow> listen list \<Rightarrow> listen list \<Rightarrow> exn + listen list" where
  "select_unique idx [] unique = Inr unique"
| "select_unique idx (l # ls) unique =
     (case listen_key l of
        Inl e \<Rightarrow> Inl e
      | Inr k \<Rightarrow> select_unique idx ls (if k \<in> idx then unique @ [l] else unique))"

text \<open>Both loops: the unique subset of a batch, given the rows the storage reports.\<close>

definition unique_subset :: "row list \<Rightarrow> listen list \<Rightarrow> exn + listen list" where
  "unique_subset rows_inserted batch = select_unique (build_inserted_index rows_inserted {}) batch []"

section \<open>Insertion\<close>

text \<open>
  The publish loop: \<^verbatim>\<open>while True: try: self.unique_ch.basic_publish(...); break
  except ConnectionClosed: self.connect_to_rabbitmq()\<close>. Attempt \<open>i\<close> is the one being
  made; \<open>None\<close> is a loop that never leaves.
\<close>

partial_function (option) publish_loop ::
  "env \<Rightarrow> listen list \<Rightarrow> nat \<Rightarrow> event list \<Rightarrow> subscriber \<Rightarrow> (event list \<times> subscriber \<times> exn option) option"
where
  "publish_loop env unique i evs s =
     (case basic_publish env i of
        Returns u \<Rightarrow>
          Some (evs @ [BasicPublish (unique_ch s) (UNIQUE_EXCHANGE env) unique None], s, None)
      | Raises e \<Rightarrow>
          if e = ConnectionClosed
          then publish_loop env unique (Suc i)
                 (evs @ [BasicPublish (unique_ch s) (UNIQUE_EXCHANGE env) unique (Some e), ConnectToRabbitmq])
                 (connect_to_rabbitmq s)
          else Some (evs @ [BasicPublish (unique_ch s) (UNIQUE_EXCHANGE env) unique (Some e)], s, Some e))"

text \<open>
  The metrics check that ends a batch which was published. The deadline is moved before
  \<^verbatim>\<open>metrics.set\<close> is called, and the counters are reset after it: if the call raises,
  the exception leaves the insertion with the deadline moved and the counters as they were.
\<close>

definition submit_metrics :: "env \<Rightarrow> subscriber \<Rightarrow> event list \<times> subscriber \<times> exn option" where
  "submit_metrics env s =
     (if monotonic env > metric_submission_time s
      then (let s1 = s\<lparr>metric_submission_time := float_add (metric_submission_time s) METRIC_UPDATE_INTERVAL\<rparr>
            in (case metrics_set env (incoming_listens s1) (unique_listens s1) of
                  Raises e \<Rightarrow>
                    ([MetricsSet (incoming_listens s1) (unique_listens s1) (Some e)], s1, Some e)
                | Returns u \<Rightarrow>
                    ([MetricsSet (incoming_listens s1) (unique_listens s1) None],
                     s1\<lparr>incoming_listens := 0, unique_listens := 0\<rparr>, None)))
      else ([], s, None))"

text \<open>What follows the publish loop: the recent-listens update, the counter, the check.\<close>

definition after_publish ::
  "env \<Rightarrow> listen list \<Rightarrow> listen list \<Rightarrow> event list \<Rightarrow> subscriber \<Rightarrow> event list \<times> subscriber \<times> (exn + int)"
where
  "after_publish env batch unique evs s =
     (case update_recent_listens env unique of
        Raises e \<Rightarrow> (evs @ [UpdateRecentListens unique (Some e)], s, Inl e)
      | Returns u \<Rightarrow>
          (let s1 = s\<lparr>unique_listens := unique_listens s + int (length unique)\<rparr>;
               (mevs, s2, raised) = submit_metrics env s1
           in (evs @ [UpdateRecentListens unique None] @ mevs, s2,
               (case raised of Some e \<Rightarrow> Inl e | None \<Rightarrow> Inr (int (length batch))))))"

text \<open>The per-day counter: \<^verbatim>\<open>except Exception\<close> catches whatever it raises.\<close>


definition count_for_day :: "env \<Rightarrow> nat \<Rightarrow> event list" where
  "count_for_day env n =
     (case increment_listen_count_for_day env n of
        Returns u \<Rightarrow> [IncrementListenCountForDay n None]
      | Raises e \<Rightarrow>
          [IncrementListenCountForDay n (Some e),
           LogError ''Could not update listen count per day in redis''])"

text \<open>
  The argument \<^verbatim>\<open>data\<close> of the source is \<open>batch\<close> here, \<open>data\<close> being the field of
  a listen. The result is the list of events, the subscriber as it is left, and the value
  returned or the exception raised.
\<close>

definition insert_to_listenstore ::
  "env \<Rightarrow> subscriber \<Rightarrow> listen list \<Rightarrow> (event list \<times> subscriber \<times> (exn + int)) option"
where
  "insert_to_listenstore env s batch =
     (if batch = [] then Some ([], s, Inr 0)
      else
        (let s1 = s\<lparr>incoming_listens := incoming_listens s + int (length batch)\<rparr> in
         (case ls_insert env batch of
            Raises e \<Rightarrow>
              (if e = OperationalError
               then Some ([LsInsert batch (Some e), LogError ''Cannot write data to listenstore: %s. Sleep.'',
                           Sleep ERROR_RETRY_DELAY], s1, Inr LISTEN_INSERT_ERROR_SENTINEL)
               else Some ([LsInsert batch (Some e)], s1, Inl e))
          | Returns rows_inserted \<Rightarrow>
              (if rows_inserted = [] then Some ([LsInsert batch None], s1, Inr (int (length batch)))
               else
                 (let evs = LsInsert batch None # count_for_day env (length rows_inserted) in
                  (case unique_subset rows_inserted batch of
                     Inl e \<Rightarrow> Some (evs, s1, Inl e)
                   | Inr unique \<Rightarrow>
                       (if unique = [] then Some (evs, s1, Inr (int (length batch)))
                        else
                          (case publish_loop env unique 0 evs s1 of
                             None \<Rightarrow> None
                           | Some (evs2, s2, raised) \<Rightarrow>
                               (case raised of
                                  Some e \<Rightarrow> Some (evs2, s2, Inl e)
                                | None \<Rightarrow> Some (after_publish env batch unique evs2 s2))))))))))"

section \<open>Enrichment\<close>

definition bindE :: "exn + 'a \<Rightarrow> ('a \<Rightarrow> exn + 'b) \<Rightarrow> exn + 'b" where
  "bindE m f = (case m of Inl e \<Rightarrow> Inl e | Inr v \<Rightarrow> f v)"

text \<open>\<^verbatim>\<open>d[k]\<close> for a string \<open>k\<close>: only a dict can be indexed by a string.\<close>

definition getitem :: "json \<Rightarrow> string \<Rightarrow> exn + json" where
  "getitem d k =
     (case d of
        JObj kvs \<Rightarrow> (case map_of kvs k of None \<Rightarrow> Inl KeyError | Some v \<Rightarrow> Inr v)
      | _ \<Rightarrow> Inl TypeError)"

text \<open>
  \<^verbatim>\<open>k in d\<close> for a string \<open>k\<close>: a key of a dict, an element of a list, a substring
  of a string; the other values are not containers.
\<close>

definition contains :: "json \<Rightarrow> string \<Rightarrow> exn + bool" where
  "contains d k =
     (case d of
        JObj kvs \<Rightarrow> Inr (k \<in> fst ` set kvs)
      | JArr xs \<Rightarrow> Inr (JStr k \<in> set xs)
      | JStr s \<Rightarrow> Inr (sublist k s)
      | _ \<Rightarrow> Inl TypeError)"

text \<open>\<^verbatim>\<open>d[k] = v\<close> for a string \<open>k\<close>.\<close>

definition setitem :: "json \<Rightarrow> string \<Rightarrow> json \<Rightarrow> exn + json" where
  "setitem d k v =
     (case d of
        JObj kvs \<Rightarrow> Inr (JObj (AList.update k v kvs))
      | _ \<Rightarrow> Inl TypeError)"

text \<open>Iteration, as \<^verbatim>\<open>zip\<close> and \<^verbatim>\<open>chunked\<close> do it.\<close>

definition py_iter :: "json \<Rightarrow> exn + json list" where
  "py_iter d =
     (case d of
        JArr xs \<Rightarrow> Inr xs
      | JObj kvs \<Rightarrow> Inr (map (\<lambda>kv. JStr (fst kv)) kvs)
      | JStr s \<Rightarrow> Inr (map (\<lambda>c. JStr [c]) s)
      | _ \<Rightarrow> Inl TypeError)"

text \<open>\<^verbatim>\<open>if k in src: messy_dict[k'] = src[k]\<close>\<close>

definition copy_key ::
  "json \<Rightarrow> string \<Rightarrow> string \<Rightarrow> (string \<times> json) list \<Rightarrow> exn + (string \<times> json) list"
where
  "copy_key src k k' messy_dict =
     bindE (contains src k) (\<lambda>present.
       if present then bindE (getitem src k) (\<lambda>v. Inr (AList.update k' v messy_dict))
       else Inr messy_dict)"

text \<open>
  \<^verbatim>\<open>if 'artist_mbids' in ai and isinstance(ai['artist_mbids'], list):
  messy_dict['artist_mbids'] = sorted(ai['artist_mbids'])\<close>
\<close>

definition copy_artist_mbids ::
  "env \<Rightarrow> json \<Rightarrow> (string \<times> json) list \<Rightarrow> exn + (string \<times> json) list"
where
  "copy_artist_mbids env ai messy_dict =
     bindE (contains ai ''artist_mbids'') (\<lambda>present.
       if present then
         bindE (getitem ai ''artist_mbids'') (\<lambda>v.
           case v of
             JArr xs \<Rightarrow>
               (case py_sorted env xs of
                  Raises e \<Rightarrow> Inl e
                | Returns ys \<Rightarrow> Inr (AList.update ''artist_mbids'' (JArr ys) messy_dict))
           | _ \<Rightarrow> Inr messy_dict)
       else Inr messy_dict)"

text \<open>The body of the first loop of \<^verbatim>\<open>messybrainz_lookup\<close>: one request.\<close>

definition messy_dict_of :: "env \<Rightarrow> json \<Rightarrow> exn + json" where
  "messy_dict_of env listen =
     bindE (getitem listen ''track_metadata'') (\<lambda>tm.
     bindE (getitem tm ''artist_name'') (\<lambda>artist.
     bindE (getitem tm ''track_name'') (\<lambda>title.
     bindE (copy_key tm ''release_name'' ''release'' [(''artist'', artist), (''title'', title)]) (\<lambda>md1.
     bindE (contains tm ''additional_info'') (\<lambda>has_ai.
       if has_ai then
         bindE (getitem tm ''additional_info'') (\<lambda>ai.
         bindE (copy_artist_mbids env ai md1) (\<lambda>md2.
         bindE (copy_key ai ''release_mbid'' ''release_mbid'' md2) (\<lambda>md3.
         bindE (copy_key ai ''recording_mbid'' ''recording_mbid'' md3) (\<lambda>md4.
         bindE (copy_key ai ''track_number'' ''track_number'' md4) (\<lambda>md5.
         bindE (copy_key ai ''spotify_id'' ''spotify_id'' md5) (\<lambda>md6.
         Inr (JObj md6)))))))
       else Inr (JObj md1))))))"

fun build_requests :: "env \<Rightarrow> json list \<Rightarrow> json list \<Rightarrow> exn + json list" where
  "build_requests env [] msb_listens = Inr msb_listens"
| "build_requests env (listen # listens) msb_listens =
     bindE (messy_dict_of env listen) (\<lambda>messy_dict.
       build_requests env listens (msb_listens @ [messy_dict]))"

text \<open>
  \<^verbatim>\<open>if 'additional_info' not in listen['track_metadata']:
  listen['track_metadata']['additional_info'] = {}\<close>. The source changes the nested
  dict in place; here the changed dict is put back where it was.
\<close>

definition ensure_additional_info :: "json \<Rightarrow> exn + json" where
  "ensure_additional_info listen =
     bindE (getitem listen ''track_metadata'') (\<lambda>tm.
     bindE (contains tm ''additional_info'') (\<lambda>present.
       if present then Inr listen
       else bindE (setitem tm ''additional_info'' (JObj [])) (\<lambda>tm'.
              setitem listen ''track_metadata'' tm')))"

text \<open>
  \<^verbatim>\<open>listen['track_metadata']['additional_info'][k] = v\<close>, the value \<open>v\<close> being
  evaluated before.
\<close>

definition set_additional_info :: "json \<Rightarrow> string \<Rightarrow> json \<Rightarrow> exn + json" where
  "set_additional_info listen k v =
     bindE (getitem listen ''track_metadata'') (\<lambda>tm.
     bindE (getitem tm ''additional_info'') (\<lambda>ai.
     bindE (setitem ai k v) (\<lambda>ai'.
     bindE (setitem tm ''additional_info'' ai') (\<lambda>tm'.
     setitem listen ''track_metadata'' tm'))))"

text \<open>The body of the first \<^verbatim>\<open>try\<close>: the two mandatory identifiers.\<close>

definition set_mandatory_ids :: "json \<Rightarrow> json \<Rightarrow> exn + json" where
  "set_mandatory_ids listen ids =
     bindE (getitem ids ''recording_msid'') (\<lambda>recording_msid.
     bindE (setitem listen ''recording_msid'' recording_msid) (\<lambda>listen1.
     bindE (getitem ids ''artist_msid'') (\<lambda>artist_msid.
     set_additional_info listen1 ''artist_msid'' artist_msid)))"

text \<open>The second \<^verbatim>\<open>try\<close>: \<^verbatim>\<open>except KeyError: pass\<close>.\<close>

definition set_release_msid :: "json \<Rightarrow> json \<Rightarrow> exn + json" where
  "set_release_msid listen ids =
     (case bindE (getitem ids ''release_msid'') (set_additional_info listen ''release_msid'') of
        Inl e \<Rightarrow> if e = KeyError then Inr listen else Inl e
      | Inr listen1 \<Rightarrow> Inr listen1)"

text \<open>
  One round of the second loop. \<open>Inr None\<close> is the \<^verbatim>\<open>KeyError\<close> caught by the first
  \<^verbatim>\<open>try\<close>, after which the function returns the empty list.
\<close>

definition augment :: "json \<Rightarrow> json \<Rightarrow> exn + json option" where
  "augment listen messybrainz_resp =
     bindE (getitem messybrainz_resp ''ids'') (\<lambda>ids.
     bindE (ensure_additional_info listen) (\<lambda>listen0.
       case set_mandatory_ids listen0 ids of
         Inl e \<Rightarrow> if e = KeyError then Inr None else Inl e
       | Inr listen1 \<Rightarrow> bindE (set_release_msid listen1 ids) (\<lambda>listen2. Inr (Some listen2))))"

fun augment_loop :: "(json \<times> json) list \<Rightarrow> json list \<Rightarrow> event list \<times> (exn + json list)" where
  "augment_loop [] augmented_listens = ([], Inr augmented_listens)"
| "augment_loop ((listen, messybrainz_resp) # rest) augmented_listens =
     (case augment listen messybrainz_resp of
        Inl e \<Rightarrow> ([], Inl e)
      | Inr None \<Rightarrow> ([LogError ''MessyBrainz did not return a proper set of ids''], Inr [])
      | Inr (Some listen') \<Rightarrow> augment_loop rest (augmented_listens @ [listen']))"

definition messybrainz_lookup :: "env \<Rightarrow> json list \<Rightarrow> event list \<times> (exn + json list)" where
  "messybrainz_lookup env listens =
     (case build_requests env listens [] of
        Inl e \<Rightarrow> ([], Inl e)
      | Inr msb_listens \<Rightarrow>
          (case submit_listens env msb_listens of
             Raises e \<Rightarrow>
               if e = BadDataException \<or> e = ErrorAddingException
               then ([SubmitListens msb_listens (Some e),
                      LogError ''MessyBrainz lookup for listens failed: ''], Inr [])
               else ([SubmitListens msb_listens (Some e)], Inl e)
           | Returns msb_responses \<Rightarrow>
               (case bindE (getitem msb_responses ''payload'') py_iter of
                  Inl e \<Rightarrow> ([SubmitListens msb_listens None], Inl e)
                | Inr payload \<Rightarrow>
                    (case augment_loop (zip listens payload) [] of
                       (evs, r) \<Rightarrow> (SubmitListens msb_listens None # evs, r)))))"

section \<open>The callback\<close>

text \<open>\<^verbatim>\<open>more_itertools.chunked\<close>: lists of \<open>n\<close> items, the last one shorter; none for \<open>n = 0\<close>.\<close>

function chunked :: "'a list \<Rightarrow> nat \<Rightarrow> 'a list list" where
  "chunked xs n = (if take n xs = [] then [] else take n xs # chunked (drop n xs) n)"
  by pat_completeness auto
termination
  by (relation "measure (\<lambda>(xs, n). length xs)") auto

declare chunked.simps [simp del]

fun enrich_chunks :: "env \<Rightarrow> json list list \<Rightarrow> json list \<Rightarrow> event list \<times> (exn + json list)" where
  "enrich_chunks env [] msb_listens = ([], Inr msb_listens)"
| "enrich_chunks env (chunk # chunks) msb_listens =
     (case messybrainz_lookup env chunk of
        (evs, Inl e) \<Rightarrow> (evs, Inl e)
      | (evs, Inr found) \<Rightarrow>
          (case enrich_chunks env chunks (msb_listens @ found) of
             (evs2, r) \<Rightarrow> (evs @ evs2, r)))"

text \<open>The parse loop: \<^verbatim>\<open>except ValueError: pass\<close>.\<close>

fun parse_listens :: "env \<Rightarrow> json list \<Rightarrow> listen list \<Rightarrow> exn + listen list" where
  "parse_listens env [] submit = Inr submit"
| "parse_listens env (l # ls) submit =
     (case from_json env l of
        Returns x \<Rightarrow> parse_listens env ls (submit @ [x])
      | Raises e \<Rightarrow> if e = ValueError then parse_listens env ls submit else Inl e)"

text \<open>
  The callback up to the insertion: the decoded body is cut into chunks, each chunk is
  looked up, what comes back is parsed.
\<close>

definition submit_of :: "env \<Rightarrow> json \<Rightarrow> event list \<times> (exn + listen list)" where
  "submit_of env body =
     (case py_iter body of
        Inl e \<Rightarrow> ([], Inl e)
      | Inr listens \<Rightarrow>
          (case enrich_chunks env (chunked listens (MAX_ITEMS_PER_MESSYBRAINZ_LOOKUP env)) [] of
             (evs, Inl e) \<Rightarrow> (evs, Inl e)
           | (evs, Inr msb_listens) \<Rightarrow> (evs, parse_listens env msb_listens [])))"

text \<open>The acknowledgment loop, of the same shape as the publish loop.\<close>

partial_function (option) ack_loop ::
  "env \<Rightarrow> nat \<Rightarrow> nat \<Rightarrow> event list \<Rightarrow> subscriber \<Rightarrow> (event list \<times> subscriber \<times> exn option) option"
where
  "ack_loop env delivery_tag i evs s =
     (case basic_ack env i of
        Returns u \<Rightarrow> Some (evs @ [BasicAck (incoming_ch s) delivery_tag None], s, None)
      | Raises e \<Rightarrow>
          if e = ConnectionClosed
          then ack_loop env delivery_tag (Suc i)
                 (evs @ [BasicAck (incoming_ch s) delivery_tag (Some e), ConnectToRabbitmq])
                 (connect_to_rabbitmq s)
          else Some (evs @ [BasicAck (incoming_ch s) delivery_tag (Some e)], s, Some e))"

text \<open>
  \<open>body\<close> is the message body as \<^verbatim>\<open>ujson.loads\<close> decoded it, \<open>delivery_tag\<close> the tag
  of the delivery. The result is what the callback returns or the exception that leaves it.
\<close>

definition callback ::
  "env \<Rightarrow> subscriber \<Rightarrow> nat \<Rightarrow> json \<Rightarrow> (event list \<times> subscriber \<times> (exn + int)) option"
where
  "callback env s delivery_tag body =
     (case submit_of env body of
        (evs1, Inl e) \<Rightarrow> Some (evs1, s, Inl e)
      | (evs1, Inr submit) \<Rightarrow>
          (case insert_to_listenstore env s submit of
             None \<Rightarrow> None
           | Some (evs2, s2, Inl e) \<Rightarrow> Some (evs1 @ evs2, s2, Inl e)
           | Some (evs2, s2, Inr ret) \<Rightarrow>
               if ret = LISTEN_INSERT_ERROR_SENTINEL then Some (evs1 @ evs2, s2, Inr ret)
               else
                 (case ack_loop env delivery_tag 0 (evs1 @ evs2) s2 of
                    None \<Rightarrow> None
                  | Some (evs3, s3, raised) \<Rightarrow>
                      (case raised of
                         Some e \<Rightarrow> Some (evs3, s3, Inl e)
                       | None \<Rightarrow> Some (evs3, s3, Inr ret)))))"

section \<open>Consecutive deliveries\<close>

text \<open>
  The consumer handles one message at a time. A run is a list of insertions, each with
  the environment it meets; an exception that leaves an insertion ends the run, as it
  ends \<^verbatim>\<open>start\<close>.
\<close>

fun run_batches :: "(env \<times> listen list) list \<Rightarrow> subscriber \<Rightarrow> (event list \<times> subscriber) option" where
  "run_batches [] s = Some ([], s)"
| "run_batches ((env, batch) # rest) s =
     (case insert_to_listenstore env s batch of
        None \<Rightarrow> None
      | Some (evs, s1, r) \<Rightarrow>
          (case r of
             Inl e \<Rightarrow> Some (evs, s1)
           | Inr n \<Rightarrow>
               (case run_batches rest s1 of
                  None \<Rightarrow> None
                | Some (evs2, s2) \<Rightarrow> Some (evs @ evs2, s2))))"

section \<open>Notions used in the statements\<close>

text \<open>The composite key of a listen and the joined string of a reported row.\<close>

definition listen_triple :: "listen \<Rightarrow> row option" where
  "listen_triple l = map_option (\<lambda>t. (ts_since_epoch l, t, user_name l)) (data l ''track_name'')"

fun row_key :: "row \<Rightarrow> string" where
  "row_key (a, b, c) = fmt_key a b c"

text \<open>Reading a decimal numeral: the number that a string of digits denotes.\<close>

definition digit_value :: "char \<Rightarrow> nat" where
  "digit_value c = of_char c - 48"

definition decimal_value :: "string \<Rightarrow> nat" where
  "decimal_value ds = foldl (\<lambda>acc c. 10 * acc + digit_value c) 0 ds"

text \<open>The listens of a batch whose composite key is one of the reported rows.\<close>

definition matching_triples :: "row list \<Rightarrow> listen list \<Rightarrow> listen list" where
  "matching_triples rows batch = filter (\<lambda>l. listen_triple l \<in> Some ` set rows) batch"

text \<open>The listens of a batch whose joined string is the joined string of a reported row.\<close>

definition matching_keys :: "row list \<Rightarrow> listen list \<Rightarrow> listen list" where
  "matching_keys rows batch = filter (\<lambda>l. \<exists>r \<in> set rows. listen_key l = Inr (row_key r)) batch"

text \<open>
  Attempt \<open>i + k\<close> is the first one from \<open>i\<close> on that does not end in
  \<^verbatim>\<open>ConnectionClosed\<close>.
\<close>

definition publish_closed_until :: "env \<Rightarrow> nat \<Rightarrow> nat \<Rightarrow> bool" where
  "publish_closed_until env i k \<longleftrightarrow>
     (\<forall>j<k. basic_publish env (i + j) = Raises ConnectionClosed) \<and>
     basic_publish env (i + k) \<noteq> Raises ConnectionClosed"

definition ack_closed_until :: "env \<Rightarrow> nat \<Rightarrow> nat \<Rightarrow> bool" where
  "ack_closed_until env i k \<longleftrightarrow>
     (\<forall>j<k. basic_ack env (i + j) = Raises ConnectionClosed) \<and>
     basic_ack env (i + k) \<noteq> Raises ConnectionClosed"

text \<open>What \<open>k\<close> failed attempts leave in the list of events, and what the last attempt adds.\<close>

definition publish_retry_events :: "env \<Rightarrow> listen list \<Rightarrow> subscriber \<Rightarrow> nat \<Rightarrow> event list" where
  "publish_retry_events env unique s k =
     concat (replicate k [BasicPublish (unique_ch s) (UNIQUE_EXCHANGE env) unique (Some ConnectionClosed),
                          ConnectToRabbitmq])"

definition publish_last :: "env \<Rightarrow> listen list \<Rightarrow> subscriber \<Rightarrow> nat \<Rightarrow> event list \<times> exn option" where
  "publish_last env unique s n =
     (case basic_publish env n of
        Returns u \<Rightarrow> ([BasicPublish (unique_ch s) (UNIQUE_EXCHANGE env) unique None], None)
      | Raises e \<Rightarrow> ([BasicPublish (unique_ch s) (UNIQUE_EXCHANGE env) unique (Some e)], Some e))"

definition ack_retry_events :: "nat \<Rightarrow> subscriber \<Rightarrow> nat \<Rightarrow> event list" where
  "ack_retry_events delivery_tag s k =
     concat (replicate k [BasicAck (incoming_ch s) delivery_tag (Some ConnectionClosed),
                          ConnectToRabbitmq])"

definition ack_last :: "env \<Rightarrow> nat \<Rightarrow> subscriber \<Rightarrow> nat \<Rightarrow> event list \<times> exn option" where
  "ack_last env delivery_tag s n =
     (case basic_ack env n of
        Returns u \<Rightarrow> ([BasicAck (incoming_ch s) delivery_tag None], None)
      | Raises e \<Rightarrow> ([BasicAck (incoming_ch s) delivery_tag (Some e)], Some e))"

text \<open>The subscriber after the batch was added to \<open>incoming_listens\<close>.\<close>

definition counted :: "subscriber \<Rightarrow> listen list \<Rightarrow> subscriber" where
  "counted s batch = s\<lparr>incoming_listens := incoming_listens s + int (length batch)\<rparr>"

text \<open>The events of an insertion up to its last attempt to publish.\<close>

definition before_last_publish ::
  "env \<Rightarrow> listen list \<Rightarrow> row list \<Rightarrow> listen list \<Rightarrow> subscriber \<Rightarrow> nat \<Rightarrow> event list"
where
  "before_last_publish env batch rows u s k =
     LsInsert batch None # count_for_day env (length rows) @ publish_retry_events env u s k"

text \<open>Reading the list of events.\<close>

fun is_ack_attempt :: "event \<Rightarrow> bool" where
  "is_ack_attempt (BasicAck ch t r) = True"
| "is_ack_attempt e = False"

fun is_ack :: "nat \<Rightarrow> event \<Rightarrow> bool" where
  "is_ack delivery_tag (BasicAck ch t r) = (t = delivery_tag \<and> r = None)"
| "is_ack delivery_tag e = False"

fun is_publish :: "event \<Rightarrow> bool" where
  "is_publish (BasicPublish ch ex body r) = True"
| "is_publish e = False"

fun is_metrics :: "event \<Rightarrow> bool" where
  "is_metrics (MetricsSet a b r) = True"
| "is_metrics e = False"

fun is_log :: "event \<Rightarrow> bool" where
  "is_log (LogError m) = True"
| "is_log e = False"

text \<open>
  The listens handed to the storage, the listens handed to the recent-listens cache
  after a publish, and the two totals handed to the metrics sink.
\<close>

fun attempted_of :: "event \<Rightarrow> int" where
  "attempted_of (LsInsert batch r) = int (length batch)"
| "attempted_of e = 0"

fun published_of :: "event \<Rightarrow> int" where
  "published_of (UpdateRecentListens unique None) = int (length unique)"
| "published_of e = 0"

fun emitted_incoming_of :: "event \<Rightarrow> int" where
  "emitted_incoming_of (MetricsSet a b r) = (if r = None then a else 0)"
| "emitted_incoming_of e = 0"

fun emitted_unique_of :: "event \<Rightarrow> int" where
  "emitted_unique_of (MetricsSet a b r) = (if r = None then b else 0)"
| "emitted_unique_of e = 0"

definition attempted :: "event list \<Rightarrow> int" where
  "attempted evs = sum_list (map attempted_of evs)"

definition published :: "event list \<Rightarrow> int" where
  "published evs = sum_list (map published_of evs)"

definition emitted_incoming :: "event list \<Rightarrow> int" where
  "emitted_incoming evs = sum_list (map emitted_incoming_of evs)"

definition emitted_unique :: "event list \<Rightarrow> int" where
  "emitted_unique evs = sum_list (map emitted_unique_of evs)"

text \<open>
  The enriched records of a sub-batch taken one by one: each record whose response
  carries the mandatory identifiers, whatever the others do.
\<close>

definition kept_records :: "(json \<times> json) list \<Rightarrow> json list" where
  "kept_records ps =
     concat (map (\<lambda>p. case augment (fst p) (snd p) of Inr (Some l) \<Rightarrow> [l] | _ \<Rightarrow> []) ps)"

text \<open>A dict of identifiers without one of the two mandatory ones.\<close>

definition lacks_mandatory :: "json \<Rightarrow> bool" where
  "lacks_mandatory ids \<longleftrightarrow>
     getitem ids ''recording_msid'' = Inl KeyError \<or> getitem ids ''artist_msid'' = Inl KeyError"

text \<open>What a sub-batch adds to the enriched records: nothing if its lookup raised.\<close>

definition lookup_output :: "env \<Rightarrow> json list \<Rightarrow> json list" where
  "lookup_output env chunk = (case snd (messybrainz_lookup env chunk) of Inl e \<Rightarrow> [] | Inr found \<Rightarrow> found)"

text \<open>The records that the parse loop keeps.\<close>

definition parsed :: "env \<Rightarrow> json list \<Rightarrow> listen list" where
  "parsed env ls = concat (map (\<lambda>l. case from_json env l of Returns x \<Rightarrow> [x] | Raises e \<Rightarrow> []) ls)"

section \<open>Concrete inputs\<close>

definition listen_a :: listen where
  "listen_a = \<lparr>ts_since_epoch = 1, user_name = ''c'', data = [''track_name'' \<mapsto> ''a-b'']\<rparr>"

definition listen_b :: listen where
  "listen_b = \<lparr>ts_since_epoch = 5, user_name = ''z'', data = [''track_name'' \<mapsto> ''x-y'']\<rparr>"

definition listen_e :: listen where
  "listen_e = \<lparr>ts_since_epoch = 5, user_name = ''y-z'', data = [''track_name'' \<mapsto> ''x'']\<rparr>"

definition listen_c :: listen where
  "listen_c = \<lparr>ts_since_epoch = 7, user_name = ''u'', data = [''track_name'' \<mapsto> ''t'']\<rparr>"

definition s0 :: subscriber where
  "s0 = \<lparr>connection = 1, incoming_ch = 1, unique_ch = 1, incoming_listens = 0,
          unique_listens = 0, metric_submission_time = 60\<rparr>"

definition raw_a :: json where
  "raw_a = JObj [(''track_metadata'', JObj [(''artist_name'', JStr ''A''), (''track_name'', JStr ''a-b'')]),
                 (''listened_at'', JNum 1), (''user_name'', JStr ''c'')]"

definition raw_b :: json where
  "raw_b = JObj [(''track_metadata'', JObj [(''artist_name'', JStr ''B''), (''track_name'', JStr ''x-y'')]),
                 (''listened_at'', JNum 5), (''user_name'', JStr ''z'')]"

definition raw_c :: json where
  "raw_c = JObj [(''track_metadata'', JObj [(''artist_name'', JStr ''C''), (''track_name'', JStr ''t'')]),
                 (''listened_at'', JNum 7), (''user_name'', JStr ''u'')]"

text \<open>A response with both mandatory identifiers, and one without the artist's.\<close>

definition resp_ok :: json where
  "resp_ok = JObj [(''ids'', JObj [(''recording_msid'', JStr ''r''), (''artist_msid'', JStr ''m'')])]"

definition resp_bad :: json where
  "resp_bad = JObj [(''ids'', JObj [(''recording_msid'', JStr ''r'')])]"

text \<open>
  MessyBrainz answers each request, but knows no artist for the title \<open>x-y\<close>; the
  conversion reads the three fields of the key.
\<close>

definition answer :: "json \<Rightarrow> json" where
  "answer req = (if getitem req ''title'' = Inr (JStr ''x-y'') then resp_bad else resp_ok)"

definition to_listen :: "json \<Rightarrow> listen outcome" where
  "to_listen j =
     (case (getitem j ''listened_at'', getitem j ''user_name'',
            bindE (getitem j ''track_metadata'') (\<lambda>tm. getitem tm ''track_name'')) of
        (Inr (JNum ts), Inr (JStr u), Inr (JStr t)) \<Rightarrow>
          Returns \<lparr>ts_since_epoch = ts, user_name = u, data = [''track_name'' \<mapsto> t]\<rparr>
      | _ \<Rightarrow> Raises ValueError)"

text \<open>An environment in which every collaborator answers, and the storage takes every listen.\<close>

definition env_ok :: env where
  "env_ok = \<lparr>ls_insert = (\<lambda>b. Returns (map (\<lambda>l. (ts_since_epoch l, case data l ''track_name'' of None \<Rightarrow> [] | Some t \<Rightarrow> t, user_name l)) b)),
             increment_listen_count_for_day = (\<lambda>n. Returns ()),
             basic_publish = (\<lambda>i. Returns ()),
             update_recent_listens = (\<lambda>u. Returns ()),
             monotonic = 0,
             metrics_set = (\<lambda>a b. Returns ()),
             basic_ack = (\<lambda>i. Returns ()),
             submit_listens = (\<lambda>reqs. Returns (JObj [(''payload'', JArr (map answer reqs))])),
             from_json = to_listen,
             py_sorted = (\<lambda>xs. Returns xs),
             MAX_ITEMS_PER_MESSYBRAINZ_LOOKUP = 2,
             UNIQUE_EXCHANGE = ''unique''\<rparr>"

text \<open>The storage is down; the broker closes the connection once; the clock has passed the deadline.\<close>

definition env_down :: env where
  "env_down = env_ok\<lparr>ls_insert := (\<lambda>b. Raises OperationalError)\<rparr>"

definition env_closed_once :: env where
  "env_closed_once =
     env_ok\<lparr>basic_publish := (\<lambda>i. if i = 0 then Raises ConnectionClosed else Returns ()),
            basic_ack := (\<lambda>i. if i = 0 then Raises ConnectionClosed else Returns ())\<rparr>"

definition env_late :: env where
  "env_late = env_ok\<lparr>monotonic := 61\<rparr>"

text \<open>The clock has passed the deadline and the metrics sink is down.\<close>

definition env_metrics_down :: env where
  "env_metrics_down = env_late\<lparr>metrics_set := (\<lambda>a b. Raises OtherException)\<rparr>"

text \<open>
  A subscriber whose deadline is the double written \<^verbatim>\<open>8.21\<close>, and the clock at
  \<^verbatim>\<open>9.0\<close> and at the double written \<^verbatim>\<open>68.21000000000001\<close>, which is the float
  sum \<^verbatim>\<open>8.21 + 60\<close> and lies above the exact sum.
\<close>

definition s_early :: subscriber where
  "s_early = s0\<lparr>metric_submission_time := 1155454779397243 / 140737488355328\<rparr>"

definition env_at_9 :: env where
  "env_at_9 = env_ok\<lparr>monotonic := 9\<rparr>"

definition env_at_68 :: env where
  "env_at_68 = env_ok\<lparr>monotonic := 2399926020179231 / 35184372088832\<rparr>"

text \<open>Redis is down: both of its calls raise.\<close>

definition env_redis_down :: env where
  "env_redis_down =
     env_ok\<lparr>increment_listen_count_for_day := (\<lambda>n. Raises OtherException),
            update_recent_listens := (\<lambda>u. Raises OtherException)\<rparr>"

text \<open>Only the per-day counter fails.\<close>

definition env_counter_down :: env where
  "env_counter_down = env_ok\<lparr>increment_listen_count_for_day := (\<lambda>n. Raises OtherException)\<rparr>"

text \<open>Of a batch, the storage takes \<open>listen_e\<close> only: it reports the one row \<open>(5, x, y-z)\<close>.\<close>

definition env_other_row :: env where
  "env_other_row = env_ok\<lparr>ls_insert := (\<lambda>b. Returns [(5, ''x'', ''y-z'')])\<rparr>"

text \<open>The storage reports nothing new; the storage reports the second and third listen.\<close>

definition env_no_rows :: env where
  "env_no_rows = env_ok\<lparr>ls_insert := (\<lambda>b. Returns [])\<rparr>"

definition env_two_rows :: env where
  "env_two_rows = env_ok\<lparr>ls_insert := (\<lambda>b. Returns [(5, ''x-y'', ''z''), (7, ''t'', ''u'')])\<rparr>"

text \<open>The storage reports a row with the joined string of \<open>listen_a\<close>, but another triple.\<close>

definition env_collision :: env where
  "env_collision = env_ok\<lparr>ls_insert := (\<lambda>b. Returns [(1, ''a'', ''b-c'')])\<rparr>"

text \<open>The requests for the three records, and the first and the third record enriched.\<close>

definition req_a :: json where
  "req_a = JObj [(''artist'', JStr ''A''), (''title'', JStr ''a-b'')]"

definition req_b :: json where
  "req_b = JObj [(''artist'', JStr ''B''), (''title'', JStr ''x-y'')]"

definition req_c :: json where
  "req_c = JObj [(''artist'', JStr ''C''), (''title'', JStr ''t'')]"

definition aug_a :: json where
  "aug_a = JObj [(''track_metadata'',
                  JObj [(''artist_name'', JStr ''A''), (''track_name'', JStr ''a-b''),
                        (''additional_info'', JObj [(''artist_msid'', JStr ''m'')])]),
                 (''listened_at'', JNum 1), (''user_name'', JStr ''c''),
                 (''recording_msid'', JStr ''r'')]"

definition aug_c :: json where
  "aug_c = JObj [(''track_metadata'',
                  JObj [(''artist_name'', JStr ''C''), (''track_name'', JStr ''t''),
                        (''additional_info'', JObj [(''artist_msid'', JStr ''m'')])]),
                 (''listened_at'', JNum 7), (''user_name'', JStr ''u''),
                 (''recording_msid'', JStr ''r'')]"

text \<open>A record without a timestamp: the conversion raises \<^verbatim>\<open>ValueError\<close>.\<close>

definition raw_d :: json where
  "raw_d = JObj [(''track_metadata'', JObj [(''artist_name'', JStr ''D''), (''track_name'', JStr ''q'')]),
                 (''user_name'', JStr ''u'')]"

definition req_d :: json where
  "req_d = JObj [(''artist'', JStr ''D''), (''title'', JStr ''q'')]"

definition aug_d :: json where
  "aug_d = JObj [(''track_metadata'',
                  JObj [(''artist_name'', JStr ''D''), (''track_name'', JStr ''q''),
                        (''additional_info'', JObj [(''artist_msid'', JStr ''m'')])]),
                 (''user_name'', JStr ''u''),
                 (''recording_msid'', JStr ''r'')]"

section \<open>Properties of the reconciliation key\<close>

lemma build_inserted_index_eq:
  "build_inserted_index rows idx = idx \<union> row_key ` set rows"
  by (induction rows idx rule: build_inserted_index.induct) auto

lemma select_unique_Inr:
  "select_unique idx ls acc = Inr u \<Longrightarrow>
     u = acc @ filter (\<lambda>l. \<exists>k \<in> idx. listen_key l = Inr k) ls \<and> (\<forall>l \<in> set ls. \<exists>k. listen_key l = Inr k)"
proof (induction ls arbitrary: acc)
  case Nil
  then show ?case by simp
next
  case (Cons l ls)
  show ?case
  proof (cases "listen_key l")
    case (Inl e)
    with Cons.prems show ?thesis by simp
  next
    case (Inr k)
    with Cons.prems have "select_unique idx ls (if k \<in> idx then acc @ [l] else acc) = Inr u"
      by simp
    from Cons.IH [OF this] Inr show ?thesis by auto
  qed
qed

lemma select_unique_total:
  "\<forall>l \<in> set ls. \<exists>k. listen_key l = Inr k \<Longrightarrow>
     select_unique idx ls acc = Inr (acc @ filter (\<lambda>l. \<exists>k \<in> idx. listen_key l = Inr k) ls)"
proof (induction ls arbitrary: acc)
  case Nil
  then show ?case by simp
next
  case (Cons l ls)
  then obtain k where k: "listen_key l = Inr k" by auto
  from Cons have "select_unique idx ls (if k \<in> idx then acc @ [l] else acc)
      = Inr ((if k \<in> idx then acc @ [l] else acc) @ filter (\<lambda>l. \<exists>k \<in> idx. listen_key l = Inr k) ls)"
    by simp
  with k show ?case by auto
qed

lemma unique_subset_Inr:
  assumes "unique_subset rows batch = Inr u"
  shows "u = matching_keys rows batch" and "\<forall>l \<in> set batch. \<exists>k. listen_key l = Inr k"
proof -
  from assms have sel: "select_unique (row_key ` set rows) batch [] = Inr u"
    by (simp add: unique_subset_def build_inserted_index_eq)
  from select_unique_Inr [OF sel] show "\<forall>l \<in> set batch. \<exists>k. listen_key l = Inr k" by simp
  from select_unique_Inr [OF sel] have "u = filter (\<lambda>l. \<exists>k \<in> row_key ` set rows. listen_key l = Inr k) batch"
    by simp
  then show "u = matching_keys rows batch" by (simp add: matching_keys_def)
qed

lemma unique_subset_total:
  assumes "\<forall>l \<in> set batch. \<exists>k. listen_key l = Inr k"
  shows "unique_subset rows batch = Inr (matching_keys rows batch)"
  using select_unique_total [OF assms, of "row_key ` set rows" "[]"]
  by (simp add: unique_subset_def build_inserted_index_eq matching_keys_def)

lemma listen_triple_key: "listen_triple l = Some r \<Longrightarrow> listen_key l = Inr (row_key r)"
  by (cases r) (auto simp: listen_triple_def listen_key_def)

lemma matching_triples_subset: "set (matching_triples rows batch) \<subseteq> set (matching_keys rows batch)"
proof
  fix l assume "l \<in> set (matching_triples rows batch)"
  then obtain r where "l \<in> set batch" and "r \<in> set rows" and "listen_triple l = Some r"
    by (auto simp: matching_triples_def)
  then show "l \<in> set (matching_keys rows batch)"
    using listen_triple_key [of l r] by (auto simp: matching_keys_def)
qed

text \<open>
  \<^verbatim>\<open>'%d'\<close> writes an integer in decimal: digits only, after a minus sign for a negative
  number, and the digits read back give the number.
\<close>

lemma digit_char_cases:
  assumes "d < 10"
  shows "digit_char d \<in> set ''0123456789'' \<and> digit_value (digit_char d) = d"
proof -
  from assms have "d = 0 \<or> d = 1 \<or> d = 2 \<or> d = 3 \<or> d = 4 \<or> d = 5 \<or> d = 6 \<or> d = 7 \<or> d = 8 \<or> d = 9"
    by arith
  then show ?thesis
    by (elim disjE) (simp_all add: digit_char_def digit_value_def)
qed

lemma digit_char_not_hyphen: "d < 10 \<Longrightarrow> digit_char d \<noteq> CHR ''-''"
  using digit_char_cases [of d] by auto

lemma nat_digits_no_hyphen: "CHR ''-'' \<notin> set (nat_digits n)"
proof (induction n rule: nat_digits.induct)
  case (1 n)
  show ?case
  proof (cases "n < 10")
    case True
    with digit_char_not_hyphen [of n] show ?thesis by (subst nat_digits.simps) auto
  next
    case False
    with 1 have "CHR ''-'' \<notin> set (nat_digits (n div 10))" by simp
    moreover have "digit_char (n mod 10) \<noteq> CHR ''-''" by (rule digit_char_not_hyphen) simp
    ultimately show ?thesis using False by (subst nat_digits.simps) auto
  qed
qed

lemma nat_digits_not_Nil: "nat_digits n \<noteq> []"
  by (subst nat_digits.simps) simp

lemma nat_digits_digits: "set (nat_digits n) \<subseteq> set ''0123456789''"
proof (induction n rule: nat_digits.induct)
  case (1 n)
  show ?case
  proof (cases "n < 10")
    case True
    with digit_char_cases [of n] show ?thesis by (subst nat_digits.simps) simp
  next
    case False
    with 1 have "set (nat_digits (n div 10)) \<subseteq> set ''0123456789''" by simp
    moreover have "digit_char (n mod 10) \<in> set ''0123456789''"
      using digit_char_cases [of "n mod 10"] by simp
    ultimately show ?thesis using False by (subst nat_digits.simps) simp
  qed
qed

lemma nat_digits_hd: "0 < n \<Longrightarrow> hd (nat_digits n) \<noteq> CHR ''0''"
proof (induction n rule: nat_digits.induct)
  case (1 n)
  show ?case
  proof (cases "n < 10")
    case True
    with digit_char_cases [of n] \<open>0 < n\<close> have "digit_char n \<noteq> CHR ''0''"
      by (auto simp: digit_value_def)
    with True show ?thesis by (subst nat_digits.simps) simp
  next
    case False
    then have "0 < n div 10" by simp
    with 1 False have "hd (nat_digits (n div 10)) \<noteq> CHR ''0''" by simp
    with False nat_digits_not_Nil [of "n div 10"] show ?thesis
      by (subst nat_digits.simps) simp
  qed
qed

lemma decimal_value_snoc: "decimal_value (ds @ [c]) = 10 * decimal_value ds + digit_value c"
  by (simp add: decimal_value_def)

lemma decimal_value_nat_digits: "decimal_value (nat_digits n) = n"
proof (induction n rule: nat_digits.induct)
  case (1 n)
  show ?case
  proof (cases "n < 10")
    case True
    then show ?thesis
      by (subst nat_digits.simps) (simp add: decimal_value_def digit_char_cases)
  next
    case False
    with 1 have "decimal_value (nat_digits (n div 10)) = n div 10" by simp
    moreover have "digit_value (digit_char (n mod 10)) = n mod 10"
      using digit_char_cases [of "n mod 10"] by simp
    ultimately show ?thesis using False
      by (subst nat_digits.simps) (simp add: decimal_value_snoc)
  qed
qed

lemma nat_digits_inj: "nat_digits n = nat_digits m \<Longrightarrow> n = m"
  by (metis decimal_value_nat_digits)

lemma fmt_d_inj: "fmt_d i = fmt_d j \<Longrightarrow> i = j"
proof -
  assume eq: "fmt_d i = fmt_d j"
  have hd: "hd (nat_digits n) \<noteq> CHR ''-''" for n
    using nat_digits_no_hyphen [of n] nat_digits_not_Nil [of n] by (cases "nat_digits n") auto
  show ?thesis
  proof (cases "i < 0")
    case True
    show ?thesis
    proof (cases "j < 0")
      case True
      with \<open>i < 0\<close> eq have "nat_digits (nat (- i)) = nat_digits (nat (- j))" by (simp add: fmt_d_def)
      then have "nat (- i) = nat (- j)" by (rule nat_digits_inj)
      with True \<open>i < 0\<close> show ?thesis by simp
    next
      case False
      with True eq have "CHR ''-'' # nat_digits (nat (- i)) = nat_digits (nat j)" by (simp add: fmt_d_def)
      then have "hd (nat_digits (nat j)) = CHR ''-''" by (metis list.sel(1))
      with hd show ?thesis by simp
    qed
  next
    case False
    show ?thesis
    proof (cases "j < 0")
      case True
      with False eq have "nat_digits (nat i) = CHR ''-'' # nat_digits (nat (- j))" by (simp add: fmt_d_def)
      then have "hd (nat_digits (nat i)) = CHR ''-''" by simp
      with hd show ?thesis by simp
    next
      case False
      with \<open>\<not> i < 0\<close> eq have "nat_digits (nat i) = nat_digits (nat j)" by (simp add: fmt_d_def)
      then have "nat i = nat j" by (rule nat_digits_inj)
      with False \<open>\<not> i < 0\<close> show ?thesis by simp
    qed
  qed
qed

text \<open>A string without a hyphen, followed by a hyphen, is read off the front of a longer string.\<close>

lemma hyphen_free_prefix:
  assumes "CHR ''-'' \<notin> set xs" and "CHR ''-'' \<notin> set ys"
    and "xs @ CHR ''-'' # p = ys @ CHR ''-'' # q"
  shows "xs = ys \<and> p = q"
proof -
  have front: "takeWhile (\<lambda>c. c \<noteq> CHR ''-'') (zs @ CHR ''-'' # r) = zs" if "CHR ''-'' \<notin> set zs" for zs r
    using that by (induction zs) auto
  from assms(1) have "takeWhile (\<lambda>c. c \<noteq> CHR ''-'') (xs @ CHR ''-'' # p) = xs" by (rule front)
  moreover from assms(2) have "takeWhile (\<lambda>c. c \<noteq> CHR ''-'') (ys @ CHR ''-'' # q) = ys" by (rule front)
  ultimately have "xs = ys" using assms(3) by simp
  with assms(3) show ?thesis by simp
qed

lemma fmt_d_prefix:
  assumes "fmt_d i @ CHR ''-'' # p = fmt_d j @ CHR ''-'' # q"
  shows "i = j \<and> p = q"
proof -
  have hd: "hd (nat_digits n @ r) \<noteq> CHR ''-''" for n r
    using nat_digits_no_hyphen [of n] nat_digits_not_Nil [of n] by (cases "nat_digits n") auto
  have "fmt_d i = fmt_d j \<and> p = q"
  proof (cases "i < 0")
    case True
    show ?thesis
    proof (cases "j < 0")
      case True
      with \<open>i < 0\<close> assms
      have "nat_digits (nat (- i)) @ CHR ''-'' # p = nat_digits (nat (- j)) @ CHR ''-'' # q"
        by (simp add: fmt_d_def)
      from hyphen_free_prefix [OF nat_digits_no_hyphen nat_digits_no_hyphen this] True \<open>i < 0\<close>
      show ?thesis by (simp add: fmt_d_def)
    next
      case False
      with True assms
      have "CHR ''-'' # nat_digits (nat (- i)) @ CHR ''-'' # p = nat_digits (nat j) @ CHR ''-'' # q"
        by (simp add: fmt_d_def)
      then have "hd (nat_digits (nat j) @ CHR ''-'' # q) = CHR ''-''" by (metis list.sel(1))
      with hd show ?thesis by simp
    qed
  next
    case False
    show ?thesis
    proof (cases "j < 0")
      case True
      with False assms
      have "nat_digits (nat i) @ CHR ''-'' # p = CHR ''-'' # nat_digits (nat (- j)) @ CHR ''-'' # q"
        by (simp add: fmt_d_def)
      then have "hd (nat_digits (nat i) @ CHR ''-'' # p) = CHR ''-''" by simp
      with hd show ?thesis by simp
    next
      case False
      with \<open>\<not> i < 0\<close> assms
      have "nat_digits (nat i) @ CHR ''-'' # p = nat_digits (nat j) @ CHR ''-'' # q"
        by (simp add: fmt_d_def)
      from hyphen_free_prefix [OF nat_digits_no_hyphen nat_digits_no_hyphen this] False \<open>\<not> i < 0\<close>
      show ?thesis by (simp add: fmt_d_def)
    qed
  qed
  then show ?thesis by (auto dest: fmt_d_inj)
qed

text \<open>Two joined strings are equal exactly when the timestamps are equal and so are the names joined by a hyphen.\<close>

lemma fmt_key_eq_iff:
  "fmt_key a b c = fmt_key a' b' c' \<longleftrightarrow> a = a' \<and> b @ ''-'' @ c = b' @ ''-'' @ c'"
proof
  assume "fmt_key a b c = fmt_key a' b' c'"
  then have "fmt_d a @ CHR ''-'' # (b @ ''-'' @ c) = fmt_d a' @ CHR ''-'' # (b' @ ''-'' @ c')"
    by (simp add: fmt_key_def)
  from fmt_d_prefix [OF this] show "a = a' \<and> b @ ''-'' @ c = b' @ ''-'' @ c'" .
next
  assume "a = a' \<and> b @ ''-'' @ c = b' @ ''-'' @ c'"
  then show "fmt_key a b c = fmt_key a' b' c'" by (simp add: fmt_key_def)
qed

lemma joined_names_eq_iff:
  assumes "CHR ''-'' \<notin> set b \<and> CHR ''-'' \<notin> set b' \<or> CHR ''-'' \<notin> set c \<and> CHR ''-'' \<notin> set c'"
  shows "b @ ''-'' @ c = b' @ ''-'' @ c' \<longleftrightarrow> b = b' \<and> c = c'"
proof
  assume eq: "b @ ''-'' @ c = b' @ ''-'' @ c'"
  from assms show "b = b' \<and> c = c'"
  proof
    assume "CHR ''-'' \<notin> set b \<and> CHR ''-'' \<notin> set b'"
    with eq hyphen_free_prefix [of b b' c c'] show ?thesis by simp
  next
    assume h: "CHR ''-'' \<notin> set c \<and> CHR ''-'' \<notin> set c'"
    from eq have "rev (b @ ''-'' @ c) = rev (b' @ ''-'' @ c')" by simp
    then have "rev c @ CHR ''-'' # rev b = rev c' @ CHR ''-'' # rev b'" by simp
    with h hyphen_free_prefix [of "rev c" "rev c'" "rev b" "rev b'"] show ?thesis by simp
  qed
qed simp

text \<open>
  The listens that the two loops select, with the comparison of the joined strings spelled
  out: the timestamp of a reported row, and its two names joined by a hyphen.
\<close>

lemma selected_iff:
  "(\<exists>r \<in> set rows. listen_key l = Inr (row_key r)) \<longleftrightarrow>
     (\<exists>(a, b, c) \<in> set rows. \<exists>t. data l ''track_name'' = Some t \<and> ts_since_epoch l = a
          \<and> t @ ''-'' @ user_name l = b @ ''-'' @ c)"
proof (cases "data l ''track_name''")
  case None
  then show ?thesis by (auto simp: listen_key_def)
next
  case (Some t)
  show ?thesis
  proof
    assume "\<exists>r \<in> set rows. listen_key l = Inr (row_key r)"
    then obtain r where r: "r \<in> set rows" and k: "listen_key l = Inr (row_key r)" by blast
    obtain a b c where abc: "r = (a, b, c)" by (cases r)
    from k abc Some have "ts_since_epoch l = a \<and> t @ ''-'' @ user_name l = b @ ''-'' @ c"
      by (simp add: listen_key_def fmt_key_eq_iff)
    with Some have "case r of (a, b, c) \<Rightarrow> \<exists>t. data l ''track_name'' = Some t \<and> ts_since_epoch l = a
          \<and> t @ ''-'' @ user_name l = b @ ''-'' @ c"
      by (simp add: abc)
    with r show "\<exists>(a, b, c) \<in> set rows. \<exists>t. data l ''track_name'' = Some t \<and> ts_since_epoch l = a
          \<and> t @ ''-'' @ user_name l = b @ ''-'' @ c"
      by (rule bexI [rotated])
  next
    assume "\<exists>(a, b, c) \<in> set rows. \<exists>t. data l ''track_name'' = Some t \<and> ts_since_epoch l = a
          \<and> t @ ''-'' @ user_name l = b @ ''-'' @ c"
    then obtain r where r: "r \<in> set rows"
      and p: "case r of (a, b, c) \<Rightarrow> \<exists>t. data l ''track_name'' = Some t \<and> ts_since_epoch l = a
          \<and> t @ ''-'' @ user_name l = b @ ''-'' @ c"
      by blast
    obtain a b c where abc: "r = (a, b, c)" by (cases r)
    from p abc Some have "listen_key l = Inr (row_key r)"
      by (simp add: listen_key_def fmt_key_eq_iff)
    with r show "\<exists>r \<in> set rows. listen_key l = Inr (row_key r)" by blast
  qed
qed

lemma unique_subset_joined:
  assumes "unique_subset rows batch = Inr u"
  shows "u = filter (\<lambda>l. \<exists>(a, b, c) \<in> set rows. \<exists>t. data l ''track_name'' = Some t
                 \<and> ts_since_epoch l = a \<and> t @ ''-'' @ user_name l = b @ ''-'' @ c) batch"
  using unique_subset_Inr(1) [OF assms] by (simp add: matching_keys_def selected_iff)

text \<open>
  Without a hyphen in the track names, or without one in the user names, the joined strings
  tell the triples apart, and the unique subset is the listens whose triple was reported.
\<close>

lemma unique_subset_by_triple_without_hyphen:
  assumes u: "unique_subset rows batch = Inr u"
    and free: "(\<forall>l \<in> set batch. \<forall>t. data l ''track_name'' = Some t \<longrightarrow> CHR ''-'' \<notin> set t)
                 \<and> (\<forall>(a, b, c) \<in> set rows. CHR ''-'' \<notin> set b)
             \<or> (\<forall>l \<in> set batch. CHR ''-'' \<notin> set (user_name l))
                 \<and> (\<forall>(a, b, c) \<in> set rows. CHR ''-'' \<notin> set c)"
  shows "u = matching_triples rows batch"
proof -
  have "(\<exists>r \<in> set rows. listen_key l = Inr (row_key r)) \<longleftrightarrow> listen_triple l \<in> Some ` set rows"
    if l: "l \<in> set batch" for l
  proof
    assume "\<exists>r \<in> set rows. listen_key l = Inr (row_key r)"
    then obtain a b c t where r: "(a, b, c) \<in> set rows" and t: "data l ''track_name'' = Some t"
      and a: "ts_since_epoch l = a" and j: "t @ ''-'' @ user_name l = b @ ''-'' @ c"
      unfolding selected_iff by auto
    from free l r t
    have "CHR ''-'' \<notin> set t \<and> CHR ''-'' \<notin> set b
        \<or> CHR ''-'' \<notin> set (user_name l) \<and> CHR ''-'' \<notin> set c"
      by auto
    from joined_names_eq_iff [OF this] j have "t = b \<and> user_name l = c" by simp
    with t a have "listen_triple l = Some (a, b, c)" by (simp add: listen_triple_def)
    with r show "listen_triple l \<in> Some ` set rows" by auto
  next
    assume "listen_triple l \<in> Some ` set rows"
    then obtain r where "r \<in> set rows" and "listen_triple l = Some r" by auto
    then show "\<exists>r \<in> set rows. listen_key l = Inr (row_key r)"
      using listen_triple_key [of l r] by auto
  qed
  then have "matching_keys rows batch = matching_triples rows batch"
    by (simp add: matching_keys_def matching_triples_def cong: filter_cong)
  with unique_subset_Inr(1) [OF u] show ?thesis by simp
qed

lemmas key_eval = fmt_key_def fmt_d_def nat_digits.simps digit_char_def listen_key_def
  unique_subset_def listen_triple_def matching_triples_def matching_keys_def

section \<open>The publish loop\<close>

lemma unique_ch_connect [simp]: "unique_ch (connect_to_rabbitmq s) = unique_ch s"
  by (simp add: connect_to_rabbitmq_def)

lemma incoming_ch_connect [simp]: "incoming_ch (connect_to_rabbitmq s) = incoming_ch s"
  by (simp add: connect_to_rabbitmq_def)

lemma incoming_listens_connect [simp]: "incoming_listens (connect_to_rabbitmq s) = incoming_listens s"
  by (simp add: connect_to_rabbitmq_def)

lemma unique_listens_connect [simp]: "unique_listens (connect_to_rabbitmq s) = unique_listens s"
  by (simp add: connect_to_rabbitmq_def)

lemma metric_submission_time_connect [simp]:
  "metric_submission_time (connect_to_rabbitmq s) = metric_submission_time s"
  by (simp add: connect_to_rabbitmq_def)

lemma connection_connect [simp]: "connection (connect_to_rabbitmq s) = Suc (connection s)"
  by (simp add: connect_to_rabbitmq_def)

lemma unique_ch_reconnect [simp]: "unique_ch ((connect_to_rabbitmq ^^ k) s) = unique_ch s"
  by (induction k) simp_all

lemma incoming_ch_reconnect [simp]: "incoming_ch ((connect_to_rabbitmq ^^ k) s) = incoming_ch s"
  by (induction k) simp_all

lemma incoming_listens_reconnect [simp]:
  "incoming_listens ((connect_to_rabbitmq ^^ k) s) = incoming_listens s"
  by (induction k) simp_all

lemma unique_listens_reconnect [simp]:
  "unique_listens ((connect_to_rabbitmq ^^ k) s) = unique_listens s"
  by (induction k) simp_all

lemma metric_submission_time_reconnect [simp]:
  "metric_submission_time ((connect_to_rabbitmq ^^ k) s) = metric_submission_time s"
  by (induction k) simp_all

lemma connection_reconnect [simp]: "connection ((connect_to_rabbitmq ^^ k) s) = connection s + k"
  by (induction k) simp_all

lemma publish_retry_events_Suc:
  "publish_retry_events env u s (Suc k) =
     [BasicPublish (unique_ch s) (UNIQUE_EXCHANGE env) u (Some ConnectionClosed), ConnectToRabbitmq]
     @ publish_retry_events env u (connect_to_rabbitmq s) k"
  by (simp add: publish_retry_events_def)

lemma closed_until_split:
  assumes "\<forall>j<Suc k. f (i + j) = Raises ConnectionClosed"
  shows "f i = Raises ConnectionClosed" and "\<forall>j<k. f (Suc i + j) = Raises ConnectionClosed"
proof -
  from assms have "f (i + 0) = Raises ConnectionClosed" by blast
  then show "f i = Raises ConnectionClosed" by simp
  show "\<forall>j<k. f (Suc i + j) = Raises ConnectionClosed"
  proof (intro allI impI)
    fix j assume "j < k"
    then have "Suc j < Suc k" by simp
    with assms have "f (i + Suc j) = Raises ConnectionClosed" by blast
    then show "f (Suc i + j) = Raises ConnectionClosed" by simp
  qed
qed

lemma closed_until_Suc:
  assumes "f i = Raises ConnectionClosed" and "\<forall>j<k. f (Suc i + j) = Raises ConnectionClosed"
  shows "\<forall>j<Suc k. f (i + j) = Raises ConnectionClosed"
proof (intro allI impI)
  fix j assume "j < Suc k"
  show "f (i + j) = Raises ConnectionClosed"
  proof (cases j)
    case 0
    with assms(1) show ?thesis by simp
  next
    case (Suc j')
    with \<open>j < Suc k\<close> assms(2) show ?thesis by simp
  qed
qed

lemma publish_loop_skip:
  "\<forall>j<k. basic_publish env (i + j) = Raises ConnectionClosed \<Longrightarrow>
   publish_loop env u i evs s =
   publish_loop env u (i + k) (evs @ publish_retry_events env u s k) ((connect_to_rabbitmq ^^ k) s)"
proof (induction k arbitrary: i evs s)
  case 0
  then show ?case by (simp add: publish_retry_events_def)
next
  case (Suc k)
  note first = closed_until_split(1) [OF Suc.prems] and rest = closed_until_split(2) [OF Suc.prems]
  have "publish_loop env u i evs s =
        publish_loop env u (Suc i)
          (evs @ [BasicPublish (unique_ch s) (UNIQUE_EXCHANGE env) u (Some ConnectionClosed), ConnectToRabbitmq])
          (connect_to_rabbitmq s)"
    using first by (subst publish_loop.simps) simp
  also have "\<dots> = publish_loop env u (Suc i + k)
          ((evs @ [BasicPublish (unique_ch s) (UNIQUE_EXCHANGE env) u (Some ConnectionClosed), ConnectToRabbitmq])
             @ publish_retry_events env u (connect_to_rabbitmq s) k)
          ((connect_to_rabbitmq ^^ k) (connect_to_rabbitmq s))"
    by (rule Suc.IH [OF rest])
  finally show ?case
    by (simp add: publish_retry_events_Suc funpow_swap1)
qed

lemma publish_loop_returns:
  assumes "publish_closed_until env i k"
  shows "publish_loop env u i evs s =
     Some (evs @ publish_retry_events env u s k @ fst (publish_last env u s (i + k)),
           (connect_to_rabbitmq ^^ k) s, snd (publish_last env u s (i + k)))"
proof -
  from assms have closed: "\<forall>j<k. basic_publish env (i + j) = Raises ConnectionClosed"
    and last: "basic_publish env (i + k) \<noteq> Raises ConnectionClosed"
    by (simp_all add: publish_closed_until_def)
  have "publish_loop env u i evs s =
        publish_loop env u (i + k) (evs @ publish_retry_events env u s k) ((connect_to_rabbitmq ^^ k) s)"
    by (rule publish_loop_skip [OF closed])
  also have "\<dots> = Some (evs @ publish_retry_events env u s k @ fst (publish_last env u s (i + k)),
           (connect_to_rabbitmq ^^ k) s, snd (publish_last env u s (i + k)))"
    using last by (subst publish_loop.simps) (simp add: publish_last_def split: outcome.splits)
  finally show ?thesis .
qed

lemma publish_loop_Some_closed_until:
  assumes ret: "publish_loop env u i evs s = Some r"
  shows "\<exists>k. publish_closed_until env i k"
proof (rule publish_loop.raw_induct [where P = "\<lambda>env u i evs s r. \<exists>k. publish_closed_until env i k", OF _ ret])
  fix f env u i evs s r
  assume IH: "\<And>env u i evs s r. f env u i evs s = Some r \<Longrightarrow> \<exists>k. publish_closed_until env i k"
    and eq: "(case basic_publish env i of
        Returns x \<Rightarrow>
          Some (evs @ [BasicPublish (unique_ch s) (UNIQUE_EXCHANGE env) u None], s, None)
      | Raises e \<Rightarrow>
          if e = ConnectionClosed
          then f env u (Suc i)
                 (evs @ [BasicPublish (unique_ch s) (UNIQUE_EXCHANGE env) u (Some e), ConnectToRabbitmq])
                 (connect_to_rabbitmq s)
          else Some (evs @ [BasicPublish (unique_ch s) (UNIQUE_EXCHANGE env) u (Some e)], s, Some e)) = Some r"
  show "\<exists>k. publish_closed_until env i k"
  proof (cases "basic_publish env i = Raises ConnectionClosed")
    case False
    then have "publish_closed_until env i 0" by (simp add: publish_closed_until_def)
    then show ?thesis ..
  next
    case True
    with eq have "f env u (Suc i)
                 (evs @ [BasicPublish (unique_ch s) (UNIQUE_EXCHANGE env) u (Some ConnectionClosed), ConnectToRabbitmq])
                 (connect_to_rabbitmq s) = Some r" by simp
    then obtain k where k: "publish_closed_until env (Suc i) k" using IH by blast
    then have "\<forall>j<k. basic_publish env (Suc i + j) = Raises ConnectionClosed"
      and last: "basic_publish env (i + Suc k) \<noteq> Raises ConnectionClosed"
      by (simp_all add: publish_closed_until_def)
    from closed_until_Suc [OF True this(1)] last
    have "publish_closed_until env i (Suc k)" by (simp add: publish_closed_until_def)
    then show ?thesis ..
  qed
qed

text \<open>If the broker closes the connection at every attempt, the loop never leaves.\<close>

lemma publish_loop_never:
  assumes "\<forall>j. basic_publish env (i + j) = Raises ConnectionClosed"
  shows "publish_loop env u i evs s = None"
proof (cases "publish_loop env u i evs s")
  case None
  then show ?thesis .
next
  case (Some r)
  from publish_loop_Some_closed_until [OF Some] assms show ?thesis
    by (auto simp: publish_closed_until_def)
qed

lemma publish_loop_SomeD:
  assumes "publish_loop env u i evs s = Some (evs2, s2, raised)"
  shows "\<exists>k. publish_closed_until env i k \<and>
             evs2 = evs @ publish_retry_events env u s k @ fst (publish_last env u s (i + k)) \<and>
             s2 = (connect_to_rabbitmq ^^ k) s \<and> raised = snd (publish_last env u s (i + k))"
proof -
  from publish_loop_Some_closed_until [OF assms] obtain k where k: "publish_closed_until env i k" ..
  from publish_loop_returns [OF k, of u evs s] assms k show ?thesis by auto
qed

section \<open>Insertion: the paths\<close>

lemma insert_empty: "insert_to_listenstore env s [] = Some ([], s, Inr 0)"
  by (simp add: insert_to_listenstore_def)

lemma insert_transient:
  "batch \<noteq> [] \<Longrightarrow> ls_insert env batch = Raises OperationalError \<Longrightarrow>
   insert_to_listenstore env s batch =
     Some ([LsInsert batch (Some OperationalError), LogError ''Cannot write data to listenstore: %s. Sleep.'',
            Sleep ERROR_RETRY_DELAY],
           s\<lparr>incoming_listens := incoming_listens s + int (length batch)\<rparr>,
           Inr LISTEN_INSERT_ERROR_SENTINEL)"
  by (simp add: insert_to_listenstore_def)

lemma insert_raises:
  "batch \<noteq> [] \<Longrightarrow> ls_insert env batch = Raises e \<Longrightarrow> e \<noteq> OperationalError \<Longrightarrow>
   insert_to_listenstore env s batch =
     Some ([LsInsert batch (Some e)], s\<lparr>incoming_listens := incoming_listens s + int (length batch)\<rparr>, Inl e)"
  by (simp add: insert_to_listenstore_def)

lemma insert_no_rows:
  "batch \<noteq> [] \<Longrightarrow> ls_insert env batch = Returns [] \<Longrightarrow>
   insert_to_listenstore env s batch =
     Some ([LsInsert batch None], s\<lparr>incoming_listens := incoming_listens s + int (length batch)\<rparr>,
           Inr (int (length batch)))"
  by (simp add: insert_to_listenstore_def)

lemma insert_key_error:
  "batch \<noteq> [] \<Longrightarrow> ls_insert env batch = Returns rows \<Longrightarrow> rows \<noteq> [] \<Longrightarrow>
   unique_subset rows batch = Inl e \<Longrightarrow>
   insert_to_listenstore env s batch =
     Some (LsInsert batch None # count_for_day env (length rows),
           s\<lparr>incoming_listens := incoming_listens s + int (length batch)\<rparr>, Inl e)"
  by (simp add: insert_to_listenstore_def)

lemma insert_no_unique:
  "batch \<noteq> [] \<Longrightarrow> ls_insert env batch = Returns rows \<Longrightarrow> rows \<noteq> [] \<Longrightarrow>
   unique_subset rows batch = Inr [] \<Longrightarrow>
   insert_to_listenstore env s batch =
     Some (LsInsert batch None # count_for_day env (length rows),
           s\<lparr>incoming_listens := incoming_listens s + int (length batch)\<rparr>, Inr (int (length batch)))"
  by (simp add: insert_to_listenstore_def)

lemma insert_publish:
  "batch \<noteq> [] \<Longrightarrow> ls_insert env batch = Returns rows \<Longrightarrow> rows \<noteq> [] \<Longrightarrow>
   unique_subset rows batch = Inr u \<Longrightarrow> u \<noteq> [] \<Longrightarrow>
   insert_to_listenstore env s batch =
     (case publish_loop env u 0 (LsInsert batch None # count_for_day env (length rows))
             (s\<lparr>incoming_listens := incoming_listens s + int (length batch)\<rparr>) of
        None \<Rightarrow> None
      | Some (evs2, s2, raised) \<Rightarrow>
          (case raised of
             Some e \<Rightarrow> Some (evs2, s2, Inl e)
           | None \<Rightarrow> Some (after_publish env batch u evs2 s2)))"
  by (simp add: insert_to_listenstore_def)

text \<open>The insertion that reaches the publish loop, with the loop in closed form.\<close>

lemma insert_published:
  assumes "batch \<noteq> []" and "ls_insert env batch = Returns rows" and "rows \<noteq> []"
    and "unique_subset rows batch = Inr u" and "u \<noteq> []"
    and "publish_closed_until env 0 k"
  shows "insert_to_listenstore env s batch =
     (let s1 = s\<lparr>incoming_listens := incoming_listens s + int (length batch)\<rparr>;
          evs2 = LsInsert batch None # count_for_day env (length rows) @ publish_retry_events env u s1 k
                   @ fst (publish_last env u s1 k);
          s2 = (connect_to_rabbitmq ^^ k) s1
      in case snd (publish_last env u s1 k) of
           Some e \<Rightarrow> Some (evs2, s2, Inl e)
         | None \<Rightarrow> Some (after_publish env batch u evs2 s2))"
  using publish_loop_returns [OF assms(6), of u "LsInsert batch None # count_for_day env (length rows)"
      "s\<lparr>incoming_listens := incoming_listens s + int (length batch)\<rparr>"]
  by (simp add: insert_publish [OF assms(1-5)] Let_def)

text \<open>Every insertion that returns took one of the paths.\<close>

lemma insert_cases:
  assumes ret: "insert_to_listenstore env s batch = Some res"
  obtains
    (empty) "batch = []"
  | (transient) "batch \<noteq> []" "ls_insert env batch = Raises OperationalError"
  | (raises) e where "batch \<noteq> []" "ls_insert env batch = Raises e" "e \<noteq> OperationalError"
  | (no_rows) "batch \<noteq> []" "ls_insert env batch = Returns []"
  | (key_error) rows e where "batch \<noteq> []" "ls_insert env batch = Returns rows" "rows \<noteq> []"
      "unique_subset rows batch = Inl e"
  | (no_unique) rows where "batch \<noteq> []" "ls_insert env batch = Returns rows" "rows \<noteq> []"
      "unique_subset rows batch = Inr []"
  | (published) rows u k where "batch \<noteq> []" "ls_insert env batch = Returns rows" "rows \<noteq> []"
      "unique_subset rows batch = Inr u" "u \<noteq> []" "publish_closed_until env 0 k"
proof (cases "batch = []")
  case True
  then show ?thesis by (rule empty)
next
  case nonempty: False
  show ?thesis
  proof (cases "ls_insert env batch")
    case (Raises e)
    with nonempty show ?thesis by (cases "e = OperationalError") (auto intro: transient raises)
  next
    case (Returns rows)
    show ?thesis
    proof (cases "rows = []")
      case True
      with nonempty Returns show ?thesis by (auto intro: no_rows)
    next
      case rows: False
      show ?thesis
      proof (cases "unique_subset rows batch")
        case (Inl e)
        with nonempty Returns rows show ?thesis by (auto intro: key_error)
      next
        case (Inr u)
        show ?thesis
        proof (cases "u = []")
          case True
          with nonempty Returns rows Inr show ?thesis by (auto intro: no_unique)
        next
          case u: False
          from ret insert_publish [OF nonempty Returns rows Inr u, of s]
          obtain r where "publish_loop env u 0 (LsInsert batch None # count_for_day env (length rows))
             (s\<lparr>incoming_listens := incoming_listens s + int (length batch)\<rparr>) = Some r"
            by (auto split: option.splits)
          from publish_loop_Some_closed_until [OF this] obtain k where "publish_closed_until env 0 k" ..
          with nonempty Returns rows Inr u show ?thesis by (auto intro: published)
        qed
      qed
    qed
  qed
qed

lemma after_publish_value:
  "after_publish env batch u evs s = (evs', s', Inr r) \<Longrightarrow> r = int (length batch)"
  by (auto simp: after_publish_def Let_def split: outcome.splits prod.splits option.splits)

lemma insert_value:
  assumes "insert_to_listenstore env s batch = Some (evs, s', Inr r)"
  shows "(r = LISTEN_INSERT_ERROR_SENTINEL \<longleftrightarrow> batch \<noteq> [] \<and> ls_insert env batch = Raises OperationalError)
       \<and> (r \<noteq> LISTEN_INSERT_ERROR_SENTINEL \<longrightarrow> r = int (length batch))"
  using assms
  by (auto simp: insert_to_listenstore_def Let_def LISTEN_INSERT_ERROR_SENTINEL_def
           dest: after_publish_value
           split: if_splits outcome.splits sum.splits option.splits prod.splits)

lemma insert_completes:
  assumes "batch \<noteq> []" and "ls_insert env batch = Returns rows"
    and "unique_subset rows batch = Inr u"
    and "publish_closed_until env 0 k" and "basic_publish env k = Returns ()"
    and "update_recent_listens env u = Returns ()"
    and "monotonic env > metric_submission_time s \<longrightarrow>
           metrics_set env (incoming_listens s + int (length batch)) (unique_listens s + int (length u)) = Returns ()"
  shows "\<exists>evs s'. insert_to_listenstore env s batch = Some (evs, s', Inr (int (length batch)))"
proof (cases "rows = []")
  case True
  with assms show ?thesis by (simp add: insert_no_rows)
next
  case rows: False
  show ?thesis
  proof (cases "u = []")
    case True
    with assms rows show ?thesis by (simp add: insert_no_unique)
  next
    case False
    from insert_published [OF assms(1,2) rows assms(3) False assms(4), of s] assms(5,6,7)
    show ?thesis
      by (simp add: Let_def publish_last_def after_publish_def submit_metrics_def)
  qed
qed

lemma insert_returns_unless_metrics_raise:
  assumes "batch \<noteq> []" and "ls_insert env batch = Returns rows"
    and "unique_subset rows batch = Inr u"
    and "publish_closed_until env 0 k" and "basic_publish env k = Returns ()"
    and "update_recent_listens env u = Returns ()"
  shows "\<exists>evs s' r. insert_to_listenstore env s batch = Some (evs, s', r)
      \<and> (r = Inr (int (length batch))
         \<or> (\<exists>e. r = Inl e \<and> monotonic env > metric_submission_time s
               \<and> metrics_set env (incoming_listens s + int (length batch))
                     (unique_listens s + int (length u)) = Raises e))"
proof (cases "rows = []")
  case True
  with assms show ?thesis by (simp add: insert_no_rows)
next
  case rows: False
  show ?thesis
  proof (cases "u = []")
    case True
    with assms rows show ?thesis by (simp add: insert_no_unique)
  next
    case False
    note ins = insert_published [OF assms(1,2) rows assms(3) False assms(4), of s]
    show ?thesis
    proof (cases "metrics_set env (incoming_listens s + int (length batch)) (unique_listens s + int (length u))")
      case (Returns x)
      with ins assms(5,6) show ?thesis
        by (simp add: Let_def publish_last_def after_publish_def submit_metrics_def)
    next
      case (Raises e)
      with ins assms(5,6) show ?thesis
        by (simp add: Let_def publish_last_def after_publish_def submit_metrics_def)
    qed
  qed
qed

text \<open>
  Claim C5. For every input, \<open>insert_to_listenstore\<close> returns either the sentinel, exactly
  when the batch is not empty and the storage insert raises \<^verbatim>\<open>OperationalError\<close>, or the
  length of the input: 0 for the empty input, without any call to a collaborator, and the
  length of a non-empty input for which the storage reports no new row, without any publish.
  It does return on these paths, and also on the path through the publish loop whenever the
  broker accepts the publish after finitely many closed connections, the recent-listens
  update returns and, if the deadline has passed, \<^verbatim>\<open>metrics.set\<close> returns; the only
  other way out of that path is the exception that \<^verbatim>\<open>metrics.set\<close> raised.
\<close>

theorem insert_to_listenstore_result:
  "insert_to_listenstore env s [] = Some ([], s, Inr 0)
   \<and> (batch \<noteq> [] \<and> ls_insert env batch = Raises OperationalError \<longrightarrow>
        (\<exists>evs s'. insert_to_listenstore env s batch = Some (evs, s', Inr LISTEN_INSERT_ERROR_SENTINEL)))
   \<and> (batch \<noteq> [] \<and> ls_insert env batch = Returns [] \<longrightarrow>
        (\<exists>evs s'. insert_to_listenstore env s batch = Some (evs, s', Inr (int (length batch)))
           \<and> filter is_publish evs = []))
   \<and> (\<forall>evs s' r. insert_to_listenstore env s batch = Some (evs, s', Inr r) \<longrightarrow>
        (r = LISTEN_INSERT_ERROR_SENTINEL \<longleftrightarrow> batch \<noteq> [] \<and> ls_insert env batch = Raises OperationalError)
        \<and> (r \<noteq> LISTEN_INSERT_ERROR_SENTINEL \<longrightarrow> r = int (length batch)))
   \<and> (\<forall>rows u k. batch \<noteq> [] \<and> ls_insert env batch = Returns rows \<and> unique_subset rows batch = Inr u
          \<and> publish_closed_until env 0 k \<and> basic_publish env k = Returns ()
          \<and> update_recent_listens env u = Returns ()
          \<and> (monotonic env > metric_submission_time s \<longrightarrow>
                metrics_set env (incoming_listens s + int (length batch)) (unique_listens s + int (length u))
                  = Returns ()) \<longrightarrow>
        (\<exists>evs s'. insert_to_listenstore env s batch = Some (evs, s', Inr (int (length batch)))))
   \<and> (\<forall>rows u k. batch \<noteq> [] \<and> ls_insert env batch = Returns rows \<and> unique_subset rows batch = Inr u
          \<and> publish_closed_until env 0 k \<and> basic_publish env k = Returns ()
          \<and> update_recent_listens env u = Returns () \<longrightarrow>
        (\<exists>evs s' r. insert_to_listenstore env s batch = Some (evs, s', r)
           \<and> (r = Inr (int (length batch))
              \<or> (\<exists>e. r = Inl e \<and> monotonic env > metric_submission_time s
                    \<and> metrics_set env (incoming_listens s + int (length batch))
                          (unique_listens s + int (length u)) = Raises e))))"
proof (intro conjI allI impI)
  show "insert_to_listenstore env s [] = Some ([], s, Inr 0)" by (rule insert_empty)
next
  assume "batch \<noteq> [] \<and> ls_insert env batch = Raises OperationalError"
  then show "\<exists>evs s'. insert_to_listenstore env s batch = Some (evs, s', Inr LISTEN_INSERT_ERROR_SENTINEL)"
    by (simp add: insert_transient)
next
  assume "batch \<noteq> [] \<and> ls_insert env batch = Returns []"
  then show "\<exists>evs s'. insert_to_listenstore env s batch = Some (evs, s', Inr (int (length batch)))
           \<and> filter is_publish evs = []"
    by (simp add: insert_no_rows)
next
  fix evs s' r
  assume ret: "insert_to_listenstore env s batch = Some (evs, s', Inr r)"
  from insert_value [OF ret]
  show "(r = LISTEN_INSERT_ERROR_SENTINEL) = (batch \<noteq> [] \<and> ls_insert env batch = Raises OperationalError)"
    by simp
  assume "r \<noteq> LISTEN_INSERT_ERROR_SENTINEL"
  with insert_value [OF ret] show "r = int (length batch)" by simp
next
  fix rows u k
  assume "batch \<noteq> [] \<and> ls_insert env batch = Returns rows \<and> unique_subset rows batch = Inr u
          \<and> publish_closed_until env 0 k \<and> basic_publish env k = Returns ()
          \<and> update_recent_listens env u = Returns ()
          \<and> (monotonic env > metric_submission_time s \<longrightarrow>
                metrics_set env (incoming_listens s + int (length batch)) (unique_listens s + int (length u))
                  = Returns ())"
  then show "\<exists>evs s'. insert_to_listenstore env s batch = Some (evs, s', Inr (int (length batch)))"
    using insert_completes [of batch env rows u k s] by blast
next
  fix rows u k
  assume "batch \<noteq> [] \<and> ls_insert env batch = Returns rows \<and> unique_subset rows batch = Inr u
          \<and> publish_closed_until env 0 k \<and> basic_publish env k = Returns ()
          \<and> update_recent_listens env u = Returns ()"
  then show "\<exists>evs s' r. insert_to_listenstore env s batch = Some (evs, s', r)
           \<and> (r = Inr (int (length batch))
              \<or> (\<exists>e. r = Inl e \<and> monotonic env > metric_submission_time s
                    \<and> metrics_set env (incoming_listens s + int (length batch))
                          (unique_listens s + int (length u)) = Raises e))"
    using insert_returns_unless_metrics_raise [of batch env rows u k s] by blast
qed

lemmas insert_eval = insert_to_listenstore_def Let_def publish_loop.simps after_publish_def
  count_for_day_def submit_metrics_def ERROR_RETRY_DELAY_def LISTEN_INSERT_ERROR_SENTINEL_def
  METRIC_UPDATE_INTERVAL_def


lemma publish_retry_events_counted [simp]:
  "publish_retry_events env u (s\<lparr>incoming_listens := x\<rparr>) k = publish_retry_events env u s k"
  by (simp add: publish_retry_events_def)

lemma publish_last_counted [simp]:
  "publish_last env u (s\<lparr>incoming_listens := x\<rparr>) n = publish_last env u s n"
  by (simp add: publish_last_def split: outcome.splits)

text \<open>The three ways in which an insertion that reached the publish loop returns.\<close>

lemma insert_published_cases:
  assumes ret: "insert_to_listenstore env s batch = Some (evs, s', r)"
    and path: "batch \<noteq> []" "ls_insert env batch = Returns rows" "rows \<noteq> []"
      "unique_subset rows batch = Inr u" "u \<noteq> []" "publish_closed_until env 0 k"
  obtains
    (publish_raised) e where "basic_publish env k = Raises e" "e \<noteq> ConnectionClosed"
      "evs = before_last_publish env batch rows u s k @ [BasicPublish (unique_ch s) (UNIQUE_EXCHANGE env) u (Some e)]"
      "s' = (connect_to_rabbitmq ^^ k) (counted s batch)" "r = Inl e"
  | (update_raised) e where "basic_publish env k = Returns ()" "update_recent_listens env u = Raises e"
      "evs = before_last_publish env batch rows u s k
             @ [BasicPublish (unique_ch s) (UNIQUE_EXCHANGE env) u None, UpdateRecentListens u (Some e)]"
      "s' = (connect_to_rabbitmq ^^ k) (counted s batch)" "r = Inl e"
  | (completed) "basic_publish env k = Returns ()" "update_recent_listens env u = Returns ()"
      "evs = before_last_publish env batch rows u s k
             @ [BasicPublish (unique_ch s) (UNIQUE_EXCHANGE env) u None, UpdateRecentListens u None]
             @ fst (submit_metrics env (((connect_to_rabbitmq ^^ k) (counted s batch))
                      \<lparr>unique_listens := unique_listens s + int (length u)\<rparr>))"
      "s' = fst (snd (submit_metrics env (((connect_to_rabbitmq ^^ k) (counted s batch))
                      \<lparr>unique_listens := unique_listens s + int (length u)\<rparr>)))"
      "r = (case snd (snd (submit_metrics env (((connect_to_rabbitmq ^^ k) (counted s batch))
                      \<lparr>unique_listens := unique_listens s + int (length u)\<rparr>))) of
              Some e \<Rightarrow> Inl e | None \<Rightarrow> Inr (int (length batch)))"
proof (cases "basic_publish env k")
  case (Raises e)
  with path(6) have "e \<noteq> ConnectionClosed" by (auto simp: publish_closed_until_def)
  moreover from ret Raises insert_published [OF path, of s]
  have "evs = before_last_publish env batch rows u s k @ [BasicPublish (unique_ch s) (UNIQUE_EXCHANGE env) u (Some e)]
      \<and> s' = (connect_to_rabbitmq ^^ k) (counted s batch) \<and> r = Inl e"
    by (simp add: Let_def publish_last_def before_last_publish_def counted_def)
  ultimately show ?thesis using Raises by (auto intro: publish_raised)
next
  case (Returns x)
  then have ok: "basic_publish env k = Returns ()" by simp
  show ?thesis
  proof (cases "update_recent_listens env u")
    case (Raises e)
    from ret ok Raises insert_published [OF path, of s]
    have "evs = before_last_publish env batch rows u s k
             @ [BasicPublish (unique_ch s) (UNIQUE_EXCHANGE env) u None, UpdateRecentListens u (Some e)]
      \<and> s' = (connect_to_rabbitmq ^^ k) (counted s batch) \<and> r = Inl e"
      by (simp add: Let_def publish_last_def before_last_publish_def counted_def after_publish_def)
    with ok Raises show ?thesis by (auto intro: update_raised)
  next
    case (Returns y)
    then have upd: "update_recent_listens env u = Returns ()" by simp
    from ret ok upd insert_published [OF path, of s]
    have "evs = before_last_publish env batch rows u s k
             @ [BasicPublish (unique_ch s) (UNIQUE_EXCHANGE env) u None, UpdateRecentListens u None]
             @ fst (submit_metrics env (((connect_to_rabbitmq ^^ k) (counted s batch))
                      \<lparr>unique_listens := unique_listens s + int (length u)\<rparr>))
      \<and> s' = fst (snd (submit_metrics env (((connect_to_rabbitmq ^^ k) (counted s batch))
                      \<lparr>unique_listens := unique_listens s + int (length u)\<rparr>)))
      \<and> r = (case snd (snd (submit_metrics env (((connect_to_rabbitmq ^^ k) (counted s batch))
                      \<lparr>unique_listens := unique_listens s + int (length u)\<rparr>))) of
              Some e \<Rightarrow> Inl e | None \<Rightarrow> Inr (int (length batch)))"
      by (auto simp: Let_def publish_last_def before_last_publish_def counted_def after_publish_def
               split: prod.splits)
    with ok upd show ?thesis by (auto intro: completed)
  qed
qed

text \<open>Every insertion that returns, with what it did and what it left.\<close>

lemma insert_outcomes:
  assumes ret: "insert_to_listenstore env s batch = Some (evs, s', r)"
  obtains
    (empty) "batch = []" "evs = []" "s' = s" "r = Inr 0"
  | (transient) "batch \<noteq> []" "ls_insert env batch = Raises OperationalError"
      "evs = [LsInsert batch (Some OperationalError), LogError ''Cannot write data to listenstore: %s. Sleep.'',
              Sleep ERROR_RETRY_DELAY]"
      "s' = counted s batch" "r = Inr LISTEN_INSERT_ERROR_SENTINEL"
  | (raises) e where "batch \<noteq> []" "ls_insert env batch = Raises e" "e \<noteq> OperationalError"
      "evs = [LsInsert batch (Some e)]" "s' = counted s batch" "r = Inl e"
  | (no_rows) "batch \<noteq> []" "ls_insert env batch = Returns []"
      "evs = [LsInsert batch None]" "s' = counted s batch" "r = Inr (int (length batch))"
  | (key_error) rows e where "batch \<noteq> []" "ls_insert env batch = Returns rows" "rows \<noteq> []"
      "unique_subset rows batch = Inl e"
      "evs = LsInsert batch None # count_for_day env (length rows)" "s' = counted s batch" "r = Inl e"
  | (no_unique) rows where "batch \<noteq> []" "ls_insert env batch = Returns rows" "rows \<noteq> []"
      "unique_subset rows batch = Inr []"
      "evs = LsInsert batch None # count_for_day env (length rows)" "s' = counted s batch"
      "r = Inr (int (length batch))"
  | (publish_raised) rows u k e where "batch \<noteq> []" "ls_insert env batch = Returns rows" "rows \<noteq> []"
      "unique_subset rows batch = Inr u" "u \<noteq> []" "publish_closed_until env 0 k"
      "basic_publish env k = Raises e" "e \<noteq> ConnectionClosed"
      "evs = before_last_publish env batch rows u s k @ [BasicPublish (unique_ch s) (UNIQUE_EXCHANGE env) u (Some e)]"
      "s' = (connect_to_rabbitmq ^^ k) (counted s batch)" "r = Inl e"
  | (update_raised) rows u k e where "batch \<noteq> []" "ls_insert env batch = Returns rows" "rows \<noteq> []"
      "unique_subset rows batch = Inr u" "u \<noteq> []" "publish_closed_until env 0 k"
      "basic_publish env k = Returns ()" "update_recent_listens env u = Raises e"
      "evs = before_last_publish env batch rows u s k
             @ [BasicPublish (unique_ch s) (UNIQUE_EXCHANGE env) u None, UpdateRecentListens u (Some e)]"
      "s' = (connect_to_rabbitmq ^^ k) (counted s batch)" "r = Inl e"
  | (completed) rows u k where "batch \<noteq> []" "ls_insert env batch = Returns rows" "rows \<noteq> []"
      "unique_subset rows batch = Inr u" "u \<noteq> []" "publish_closed_until env 0 k"
      "basic_publish env k = Returns ()" "update_recent_listens env u = Returns ()"
      "snd (snd (submit_metrics env (((connect_to_rabbitmq ^^ k) (counted s batch))
                      \<lparr>unique_listens := unique_listens s + int (length u)\<rparr>))) = None"
      "evs = before_last_publish env batch rows u s k
             @ [BasicPublish (unique_ch s) (UNIQUE_EXCHANGE env) u None, UpdateRecentListens u None]
             @ fst (submit_metrics env (((connect_to_rabbitmq ^^ k) (counted s batch))
                      \<lparr>unique_listens := unique_listens s + int (length u)\<rparr>))"
      "s' = fst (snd (submit_metrics env (((connect_to_rabbitmq ^^ k) (counted s batch))
                      \<lparr>unique_listens := unique_listens s + int (length u)\<rparr>)))"
      "r = Inr (int (length batch))"
  | (metrics_raised) rows u k e where "batch \<noteq> []" "ls_insert env batch = Returns rows" "rows \<noteq> []"
      "unique_subset rows batch = Inr u" "u \<noteq> []" "publish_closed_until env 0 k"
      "basic_publish env k = Returns ()" "update_recent_listens env u = Returns ()"
      "snd (snd (submit_metrics env (((connect_to_rabbitmq ^^ k) (counted s batch))
                      \<lparr>unique_listens := unique_listens s + int (length u)\<rparr>))) = Some e"
      "evs = before_last_publish env batch rows u s k
             @ [BasicPublish (unique_ch s) (UNIQUE_EXCHANGE env) u None, UpdateRecentListens u None]
             @ fst (submit_metrics env (((connect_to_rabbitmq ^^ k) (counted s batch))
                      \<lparr>unique_listens := unique_listens s + int (length u)\<rparr>))"
      "s' = fst (snd (submit_metrics env (((connect_to_rabbitmq ^^ k) (counted s batch))
                      \<lparr>unique_listens := unique_listens s + int (length u)\<rparr>)))"
      "r = Inl e"
  using ret
proof (cases rule: insert_cases)
  case empty
  with ret show ?thesis by (auto simp: insert_empty intro: that(1))
next
  case transient
  with ret insert_transient [OF transient, of s] show ?thesis
    by (auto simp: counted_def intro: that(2))
next
  case (raises e)
  with ret insert_raises [OF raises, of s] show ?thesis
    by (auto simp: counted_def intro: that(3))
next
  case no_rows
  with ret insert_no_rows [OF no_rows, of s] show ?thesis
    by (auto simp: counted_def intro: that(4))
next
  case (key_error rows e)
  with ret insert_key_error [OF key_error, of s] show ?thesis
    by (auto simp: counted_def intro: that(5))
next
  case (no_unique rows)
  with ret insert_no_unique [OF no_unique, of s] show ?thesis
    by (auto simp: counted_def intro: that(6))
next
  case (published rows u k)
  from ret published show ?thesis
  proof (cases rule: insert_published_cases)
    case (publish_raised e)
    with published show ?thesis by (rule that(7))
  next
    case (update_raised e)
    with published show ?thesis by (rule that(8))
  next
    case completed
    show ?thesis
    proof (cases "snd (snd (submit_metrics env (((connect_to_rabbitmq ^^ k) (counted s batch))
                      \<lparr>unique_listens := unique_listens s + int (length u)\<rparr>)))")
      case None
      with published completed show ?thesis by (intro that(9)) simp_all
    next
      case (Some e)
      with published completed show ?thesis by (intro that(10) [of rows u k e]) simp_all
    qed
  qed
qed

section \<open>Reading the events of an insertion\<close>

lemma attempted_append [simp]: "attempted (xs @ ys) = attempted xs + attempted ys"
  by (simp add: attempted_def)

lemma published_append [simp]: "published (xs @ ys) = published xs + published ys"
  by (simp add: published_def)

lemma emitted_incoming_append [simp]: "emitted_incoming (xs @ ys) = emitted_incoming xs + emitted_incoming ys"
  by (simp add: emitted_incoming_def)

lemma emitted_unique_append [simp]: "emitted_unique (xs @ ys) = emitted_unique xs + emitted_unique ys"
  by (simp add: emitted_unique_def)

lemma attempted_Nil [simp]: "attempted [] = 0"
  by (simp add: attempted_def)

lemma published_Nil [simp]: "published [] = 0"
  by (simp add: published_def)

lemma emitted_incoming_Nil [simp]: "emitted_incoming [] = 0"
  by (simp add: emitted_incoming_def)

lemma emitted_unique_Nil [simp]: "emitted_unique [] = 0"
  by (simp add: emitted_unique_def)

lemma attempted_Cons [simp]: "attempted (e # evs) = attempted_of e + attempted evs"
  by (simp add: attempted_def)

lemma published_Cons [simp]: "published (e # evs) = published_of e + published evs"
  by (simp add: published_def)

lemma emitted_incoming_Cons [simp]: "emitted_incoming (e # evs) = emitted_incoming_of e + emitted_incoming evs"
  by (simp add: emitted_incoming_def)

lemma emitted_unique_Cons [simp]: "emitted_unique (e # evs) = emitted_unique_of e + emitted_unique evs"
  by (simp add: emitted_unique_def)

lemma count_for_day_reads [simp]:
  "attempted (count_for_day env n) = 0" "published (count_for_day env n) = 0"
  "emitted_incoming (count_for_day env n) = 0" "emitted_unique (count_for_day env n) = 0"
  "filter is_metrics (count_for_day env n) = []" "filter is_publish (count_for_day env n) = []"
  "filter is_ack_attempt (count_for_day env n) = []"
  by (simp_all add: count_for_day_def split: outcome.splits)

lemma publish_retry_events_reads [simp]:
  "attempted (publish_retry_events env u s k) = 0" "published (publish_retry_events env u s k) = 0"
  "emitted_incoming (publish_retry_events env u s k) = 0" "emitted_unique (publish_retry_events env u s k) = 0"
  "filter is_metrics (publish_retry_events env u s k) = []"
  "filter is_ack_attempt (publish_retry_events env u s k) = []"
  by (induction k) (simp_all add: publish_retry_events_def)

lemma before_last_publish_reads [simp]:
  "attempted (before_last_publish env batch rows u s k) = int (length batch)"
  "published (before_last_publish env batch rows u s k) = 0"
  "emitted_incoming (before_last_publish env batch rows u s k) = 0"
  "emitted_unique (before_last_publish env batch rows u s k) = 0"
  "filter is_metrics (before_last_publish env batch rows u s k) = []"
  "filter is_ack_attempt (before_last_publish env batch rows u s k) = []"
  by (simp_all add: before_last_publish_def)

lemma submit_metrics_reads [simp]:
  "attempted (fst (submit_metrics env s)) = 0" "published (fst (submit_metrics env s)) = 0"
  "filter is_ack_attempt (fst (submit_metrics env s)) = []"
  "filter is_publish (fst (submit_metrics env s)) = []"
  by (simp_all add: submit_metrics_def Let_def split: outcome.splits)

lemma counted_fields [simp]:
  "incoming_listens (counted s batch) = incoming_listens s + int (length batch)"
  "unique_listens (counted s batch) = unique_listens s"
  "metric_submission_time (counted s batch) = metric_submission_time s"
  "unique_ch (counted s batch) = unique_ch s" "incoming_ch (counted s batch) = incoming_ch s"
  "connection (counted s batch) = connection s"
  by (simp_all add: counted_def)

lemma count_for_day_clock [simp]: "count_for_day (env\<lparr>monotonic := t\<rparr>) n = count_for_day env n"
  by (simp add: count_for_day_def)

text \<open>
  Claim C10. The metrics are submitted only at the end of an insertion that published a
  non-empty unique subset. On every early return (empty input, transient storage failure, no
  new row, empty unique subset) nothing is submitted, the deadline stays as it was, and the
  outcome of the insertion is the same whatever the clock reads: the clock is not looked at.
\<close>

theorem metrics_check_only_after_publish:
  assumes "insert_to_listenstore env s batch = Some (evs, s', r)"
  shows "(filter is_metrics evs \<noteq> [] \<longrightarrow>
           (\<exists>u. u \<noteq> [] \<and> BasicPublish (unique_ch s) (UNIQUE_EXCHANGE env) u None \<in> set evs))
       \<and> (batch = [] \<or> ls_insert env batch = Raises OperationalError \<or> ls_insert env batch = Returns []
            \<or> (\<exists>rows. ls_insert env batch = Returns rows \<and> unique_subset rows batch = Inr []) \<longrightarrow>
           filter is_metrics evs = [] \<and> metric_submission_time s' = metric_submission_time s
           \<and> (\<forall>t. insert_to_listenstore (env\<lparr>monotonic := t\<rparr>) s batch = Some (evs, s', r)))"
  using assms
proof (cases rule: insert_outcomes)
  case empty
  then show ?thesis by (simp add: insert_empty)
next
  case transient
  then show ?thesis by (simp add: insert_transient counted_def)
next
  case (raises e)
  then show ?thesis by simp
next
  case no_rows
  then show ?thesis by (simp add: insert_no_rows counted_def)
next
  case (key_error rows e)
  then show ?thesis by simp
next
  case (no_unique rows)
  then show ?thesis by (simp add: insert_no_unique counted_def)
next
  case (publish_raised rows u k e)
  then show ?thesis by simp
next
  case (update_raised rows u k e)
  then show ?thesis by simp
next
  case (completed rows u k)
  then show ?thesis by auto
next
  case (metrics_raised rows u k e)
  then show ?thesis by auto
qed

section \<open>Floating-point addition: the rounding\<close>

lemma round_half_even_near: "\<bar>of_int (round_half_even z) - z\<bar> \<le> 1 / 2"
proof -
  have "of_int \<lfloor>z\<rfloor> \<le> z" and "z < of_int \<lfloor>z\<rfloor> + 1" by linarith+
  then show ?thesis by (auto simp: round_half_even_def Let_def)
qed

lemma round_half_even_of_int [simp]: "round_half_even (of_int m) = m"
  by (simp add: round_half_even_def Let_def)

lemma pow2_pos [simp]: "0 < pow2 e"
  by (simp add: pow2_def)

lemma pow2_diff: "pow2 (int h - int k) = 2 ^ h / 2 ^ k"
proof (cases "k \<le> h")
  case True
  then have "pow2 (int h - int k) = 2 ^ (h - k)" by (simp add: pow2_def nat_diff_distrib')
  with True show ?thesis by (simp add: power_diff)
next
  case False
  then have "pow2 (int h - int k) = 1 / 2 ^ (k - h)" 
    by (simp add: pow2_def nat_diff_distrib')
  moreover from False have "(2 :: real) ^ k = 2 ^ (k - h) * 2 ^ h"
    by (simp add: power_add [symmetric])
  ultimately show ?thesis by simp
qed

lemma round_binary64_near: "\<bar>round_binary64 x - x\<bar> \<le> pow2 (binade \<bar>x\<bar> - 52) / 2"
proof -
  define q where "q = pow2 (binade \<bar>x\<bar> - 52)"
  define m where "m = round_half_even (\<bar>x\<bar> / q)"
  have q: "0 < q" by (simp add: q_def)
  have r: "round_binary64 x = sgn x * (of_int m * q)"
    by (simp add: round_binary64_def Let_def q_def m_def)
  have "\<bar>of_int m - \<bar>x\<bar> / q\<bar> \<le> 1 / 2" unfolding m_def by (rule round_half_even_near)
  then have "\<bar>of_int m - \<bar>x\<bar> / q\<bar> * q \<le> 1 / 2 * q" using q by (intro mult_right_mono) simp_all
  moreover have "\<bar>of_int m - \<bar>x\<bar> / q\<bar> * q = \<bar>of_int m * q - \<bar>x\<bar>\<bar>"
  proof -
    have "\<bar>of_int m - \<bar>x\<bar> / q\<bar> * q = \<bar>(of_int m - \<bar>x\<bar> / q) * q\<bar>" using q by (simp add: abs_mult)
    also have "(of_int m - \<bar>x\<bar> / q) * q = of_int m * q - \<bar>x\<bar>" using q by (simp add: field_simps)
    finally show ?thesis .
  qed
  ultimately have near: "\<bar>of_int m * q - \<bar>x\<bar>\<bar> \<le> q / 2" by simp
  have "\<bar>round_binary64 x - x\<bar> = \<bar>of_int m * q - \<bar>x\<bar>\<bar>"
  proof (cases "x = 0")
    case True
    then have "m = 0" by (simp add: m_def round_half_even_def)
    with True r show ?thesis by simp
  next
    case False
    have "sgn x * \<bar>x\<bar> = x" by (rule mult_sgn_abs)
    then have "round_binary64 x - x = sgn x * (of_int m * q) - sgn x * \<bar>x\<bar>" by (simp add: r)
    then have "round_binary64 x - x = sgn x * (of_int m * q - \<bar>x\<bar>)"
      by (simp add: right_diff_distrib)
    then have "\<bar>round_binary64 x - x\<bar> = \<bar>sgn x\<bar> * \<bar>of_int m * q - \<bar>x\<bar>\<bar>" by (simp add: abs_mult)
    with False show ?thesis by (simp add: abs_sgn_eq)
  qed
  with near show ?thesis by (simp add: q_def)
qed

lemma halvings_bounds:
  "1 \<le> a \<Longrightarrow> a < 2 ^ Suc n \<Longrightarrow> 2 ^ halvings n a \<le> a \<and> a < 2 ^ Suc (halvings n a)"
proof (induction n arbitrary: a)
  case 0
  then show ?case by simp
next
  case (Suc n)
  show ?case
  proof (cases "a < 2")
    case True
    with Suc.prems show ?thesis by simp
  next
    case False
    with Suc.prems have "1 \<le> a / 2" and "a / 2 < 2 ^ Suc n" by simp_all
    from Suc.IH [OF this] False show ?thesis by simp
  qed
qed

lemma binade_bounds:
  assumes "1 \<le> a" and "a < 2 ^ 1024"
  shows "pow2 (binade a) \<le> a" and "a < 2 * pow2 (binade a)"
  using halvings_bounds [of a 1023] assms by (simp_all add: binade_def pow2_def)

text \<open>The sum is rounded with a relative error of at most \<open>2 ^ -53\<close>.\<close>

lemma float_add_near:
  assumes "1 \<le> \<bar>x + y\<bar>" and "\<bar>x + y\<bar> < 2 ^ 1024"
  shows "\<bar>float_add x y - (x + y)\<bar> \<le> \<bar>x + y\<bar> / 2 ^ 53"
proof -
  define h where "h = halvings 1023 \<bar>x + y\<bar>"
  from assms have b: "binade \<bar>x + y\<bar> = int h" by (simp add: binade_def h_def)
  from halvings_bounds [of "\<bar>x + y\<bar>" 1023] assms have low: "2 ^ h \<le> \<bar>x + y\<bar>" by (simp add: h_def)
  have "pow2 (binade \<bar>x + y\<bar> - 52) = 2 ^ h / 2 ^ 52"
    using pow2_diff [of h 52] by (simp add: b)
  with round_binary64_near [of "x + y"]
  have "\<bar>float_add x y - (x + y)\<bar> \<le> 2 ^ h / 2 ^ 52 / 2" by (simp add: float_add_def)
  also have "\<dots> = 2 ^ h / 2 ^ 53" by simp
  also from low have "\<dots> \<le> \<bar>x + y\<bar> / 2 ^ 53" by (simp add: divide_right_mono)
  finally show ?thesis .
qed

text \<open>A sum that is an integer below \<open>2 ^ 53\<close> is exact.\<close>

lemma float_add_exact:
  assumes "x + y = of_int m" and "\<bar>m\<bar> < 2 ^ 53"
  shows "float_add x y = x + y"
proof (cases "m = 0")
  case True
  with assms show ?thesis by (simp add: float_add_def round_binary64_def Let_def)
next
  case False
  define a :: real where "a = \<bar>of_int m\<bar>"
  define h where "h = halvings 1023 a"
  from False have a1: "1 \<le> a" by (simp add: a_def) 
  from assms(2) have "a < 2 ^ 53" unfolding a_def
    by (metis of_int_abs of_int_less_numeral_power_cancel_iff)
  also have "(2 :: real) ^ 53 \<le> 2 ^ 1024" by (intro power_increasing) simp_all
  finally have a2: "a < 2 ^ Suc 1023" by simp
  from \<open>a < 2 ^ 53\<close> halvings_bounds [OF a1 a2] have lt: "(2 :: real) ^ h < 2 ^ 53" by (simp add: h_def)
  have h: "h < 53"
  proof (rule power_less_imp_less_exp)
    show "(1 :: real) < 2" by simp
    show "(2 :: real) ^ h < 2 ^ 53" by (rule lt)
  qed
  from a1 have b: "binade a = int h" by (simp add: binade_def h_def)
  have q: "pow2 (binade a - 52) = 1 / 2 ^ (52 - h)"
  proof (cases "h = 52")
    case True
    then show ?thesis by (simp add: pow2_def b)
  next
    case False
    with h have "h < 52" by simp
    then have "nat (- (int h - 52)) = 52 - h" and "\<not> 0 \<le> int h - 52" by simp_all
    then show ?thesis by (simp add: pow2_def b)
  qed
  have "a / pow2 (binade a - 52) = a * 2 ^ (52 - h)" by (simp add: q)
  also have "\<dots> = of_int (\<bar>m\<bar> * 2 ^ (52 - h))" by (simp add: a_def)
  finally have "round_half_even (a / pow2 (binade a - 52)) = \<bar>m\<bar> * 2 ^ (52 - h)"
    by (simp only: round_half_even_of_int)
  then have "round_binary64 (of_int m) = sgn (of_int m) * (of_int (\<bar>m\<bar> * 2 ^ (52 - h)) * (1 / 2 ^ (52 - h)))"
    by (simp add: round_binary64_def Let_def a_def [symmetric] q)
  also have "\<dots> = sgn (of_int m) * \<bar>of_int m\<bar>" by simp
  also have "\<dots> = of_int m" by (rule mult_sgn_abs)
  finally show ?thesis using assms(1) by (simp add: float_add_def)
qed

text \<open>
  Two sums: an exact one, and \<^verbatim>\<open>8.21 + 60\<close>, which is rounded up to the double
  written \<^verbatim>\<open>68.21000000000001\<close>.
\<close>

lemma float_add_60_60 [simp]: "float_add 60 60 = 120"
  by code_simp

lemma float_add_rounded [simp]:
  "float_add (1155454779397243 / 140737488355328) 60 = 2399926020179231 / 35184372088832"
  by code_simp

lemma float_add_not_exact:
  "(1155454779397243 / 140737488355328 :: real) + 60 < 2399926020179231 / 35184372088832"
  by simp

section \<open>The statements at concrete inputs\<close>

lemmas fixture_defs = env_ok_def env_down_def env_no_rows_def env_two_rows_def env_collision_def
  env_closed_once_def env_late_def env_redis_down_def env_counter_down_def env_other_row_def
  env_metrics_down_def env_at_9_def env_at_68_def
  listen_a_def listen_b_def listen_c_def listen_e_def s0_def s_early_def

lemma insert_ok_listen_a:
  "insert_to_listenstore env_ok s0 [listen_a] =
     Some ([LsInsert [listen_a] None, IncrementListenCountForDay 1 None,
            BasicPublish 1 ''unique'' [listen_a] None, UpdateRecentListens [listen_a] None],
           s0\<lparr>incoming_listens := 1, unique_listens := 1\<rparr>, Inr 1)"
  by (simp add: insert_eval key_eval fixture_defs)

lemma insert_down_listen_a:
  "insert_to_listenstore env_down s0 [listen_a] =
     Some ([LsInsert [listen_a] (Some OperationalError), LogError ''Cannot write data to listenstore: %s. Sleep.'',
            Sleep 3],
           s0\<lparr>incoming_listens := 1\<rparr>, Inr (- 1))"
  by (simp add: insert_eval key_eval fixture_defs)

lemma insert_closed_once_listen_a:
  "insert_to_listenstore env_closed_once s0 [listen_a] =
     Some ([LsInsert [listen_a] None, IncrementListenCountForDay 1 None,
            BasicPublish 1 ''unique'' [listen_a] (Some ConnectionClosed), ConnectToRabbitmq,
            BasicPublish 1 ''unique'' [listen_a] None, UpdateRecentListens [listen_a] None],
           s0\<lparr>connection := 2, incoming_listens := 1, unique_listens := 1\<rparr>, Inr 1)"
  by (simp add: insert_eval key_eval fixture_defs connect_to_rabbitmq_def)

lemma insert_late_listen_a:
  "insert_to_listenstore env_late s0 [listen_a] =
     Some ([LsInsert [listen_a] None, IncrementListenCountForDay 1 None,
            BasicPublish 1 ''unique'' [listen_a] None, UpdateRecentListens [listen_a] None,
            MetricsSet 1 1 None],
           s0\<lparr>metric_submission_time := 120\<rparr>, Inr 1)"
  by (simp add: insert_eval key_eval fixture_defs)

lemma insert_no_rows_listen_a:
  "insert_to_listenstore env_no_rows s0 [listen_a] =
     Some ([LsInsert [listen_a] None], s0\<lparr>incoming_listens := 1\<rparr>, Inr 1)"
  by (simp add: insert_eval key_eval fixture_defs)

lemma insert_metrics_down_listen_a:
  "insert_to_listenstore env_metrics_down s0 [listen_a] =
     Some ([LsInsert [listen_a] None, IncrementListenCountForDay 1 None,
            BasicPublish 1 ''unique'' [listen_a] None, UpdateRecentListens [listen_a] None,
            MetricsSet 1 1 (Some OtherException)],
           s0\<lparr>incoming_listens := 1, unique_listens := 1, metric_submission_time := 120\<rparr>,
           Inl OtherException)"
  by (simp add: insert_eval key_eval fixture_defs)

lemma closed_once_until: "publish_closed_until env_closed_once 0 1"
  by (simp add: publish_closed_until_def fixture_defs)

text \<open>
  Claim C5 at concrete inputs: storage down, no new row, a connection closed once, and the
  metrics sink down when the deadline has passed.
\<close>

theorem insert_to_listenstore_result_witness:
  "ls_insert env_down [listen_a] = Raises OperationalError
   \<and> insert_to_listenstore env_down s0 [listen_a] =
       Some ([LsInsert [listen_a] (Some OperationalError), LogError ''Cannot write data to listenstore: %s. Sleep.'',
              Sleep 3], s0\<lparr>incoming_listens := 1\<rparr>, Inr LISTEN_INSERT_ERROR_SENTINEL)
   \<and> ls_insert env_no_rows [listen_a] = Returns []
   \<and> insert_to_listenstore env_no_rows s0 [listen_a] =
       Some ([LsInsert [listen_a] None], s0\<lparr>incoming_listens := 1\<rparr>, Inr (int (length [listen_a])))
   \<and> publish_closed_until env_closed_once 0 1
   \<and> (\<exists>evs s'. insert_to_listenstore env_closed_once s0 [listen_a] = Some (evs, s', Inr (int (length [listen_a]))))
   \<and> LISTEN_INSERT_ERROR_SENTINEL \<noteq> int (length [listen_a])
   \<and> monotonic env_metrics_down > metric_submission_time s0
   \<and> metrics_set env_metrics_down (incoming_listens s0 + int (length [listen_a]))
         (unique_listens s0 + int (length [listen_a])) = Raises OtherException
   \<and> (\<exists>evs s'. insert_to_listenstore env_metrics_down s0 [listen_a] = Some (evs, s', Inl OtherException))"
proof -
  note down = insert_to_listenstore_result [of env_down s0 "[listen_a]"]
  note none = insert_to_listenstore_result [of env_no_rows s0 "[listen_a]"]
  note once = insert_to_listenstore_result [of env_closed_once s0 "[listen_a]"]
  have d: "[listen_a] \<noteq> [] \<and> ls_insert env_down [listen_a] = Raises OperationalError"
    by (simp add: fixture_defs)
  with down have "\<exists>evs s'. insert_to_listenstore env_down s0 [listen_a] = Some (evs, s', Inr LISTEN_INSERT_ERROR_SENTINEL)"
    by blast
  then have d1: "insert_to_listenstore env_down s0 [listen_a] =
       Some ([LsInsert [listen_a] (Some OperationalError), LogError ''Cannot write data to listenstore: %s. Sleep.'',
              Sleep 3], s0\<lparr>incoming_listens := 1\<rparr>, Inr LISTEN_INSERT_ERROR_SENTINEL)"
    by (simp add: insert_down_listen_a LISTEN_INSERT_ERROR_SENTINEL_def)
  have n: "[listen_a] \<noteq> [] \<and> ls_insert env_no_rows [listen_a] = Returns []"
    by (simp add: fixture_defs)
  with none have "\<exists>evs s'. insert_to_listenstore env_no_rows s0 [listen_a] = Some (evs, s', Inr (int (length [listen_a])))
           \<and> filter is_publish evs = []"
    by blast
  then have n1: "insert_to_listenstore env_no_rows s0 [listen_a] =
       Some ([LsInsert [listen_a] None], s0\<lparr>incoming_listens := 1\<rparr>, Inr (int (length [listen_a])))"
    by (simp add: insert_no_rows_listen_a)
  have o: "[listen_a] \<noteq> [] \<and> ls_insert env_closed_once [listen_a] = Returns [(1, ''a-b'', ''c'')]
      \<and> unique_subset [(1, ''a-b'', ''c'')] [listen_a] = Inr [listen_a]
      \<and> publish_closed_until env_closed_once 0 1 \<and> basic_publish env_closed_once 1 = Returns ()
      \<and> update_recent_listens env_closed_once [listen_a] = Returns ()
      \<and> (monotonic env_closed_once > metric_submission_time s0 \<longrightarrow>
            metrics_set env_closed_once (incoming_listens s0 + int (length [listen_a]))
              (unique_listens s0 + int (length [listen_a])) = Returns ())"
    by (simp add: fixture_defs key_eval publish_closed_until_def)
  with once have o1: "\<exists>evs s'. insert_to_listenstore env_closed_once s0 [listen_a] = Some (evs, s', Inr (int (length [listen_a])))"
    by blast
  from d1 down have ne: "LISTEN_INSERT_ERROR_SENTINEL \<noteq> int (length [listen_a])"
    by (simp add: LISTEN_INSERT_ERROR_SENTINEL_def)
  note sink = insert_to_listenstore_result [of env_metrics_down s0 "[listen_a]"]
  have m: "monotonic env_metrics_down > metric_submission_time s0
      \<and> metrics_set env_metrics_down (incoming_listens s0 + int (length [listen_a]))
            (unique_listens s0 + int (length [listen_a])) = Raises OtherException"
    by (simp add: fixture_defs)
  from sink insert_metrics_down_listen_a
  have m1: "\<exists>evs s'. insert_to_listenstore env_metrics_down s0 [listen_a] = Some (evs, s', Inl OtherException)"
    by simp
  from d d1 n n1 o o1 ne m m1 show ?thesis by simp
qed

text \<open>Claim C10 at concrete inputs: a flush after a publish, and no new row with a late clock.\<close>

theorem metrics_check_only_after_publish_witness:
  "insert_to_listenstore env_late s0 [listen_a] =
     Some ([LsInsert [listen_a] None, IncrementListenCountForDay 1 None,
            BasicPublish 1 ''unique'' [listen_a] None, UpdateRecentListens [listen_a] None,
            MetricsSet 1 1 None], s0\<lparr>metric_submission_time := 120\<rparr>, Inr 1)
   \<and> BasicPublish (unique_ch s0) (UNIQUE_EXCHANGE env_late) [listen_a] None
       \<in> set [LsInsert [listen_a] None, IncrementListenCountForDay 1 None,
              BasicPublish 1 ''unique'' [listen_a] None, UpdateRecentListens [listen_a] None,
              MetricsSet 1 1 None]
   \<and> ls_insert env_no_rows [listen_a] = Returns []
   \<and> insert_to_listenstore (env_no_rows\<lparr>monotonic := 61\<rparr>) s0 [listen_a] =
       Some ([LsInsert [listen_a] None], s0\<lparr>incoming_listens := 1\<rparr>, Inr 1)
   \<and> metric_submission_time (s0\<lparr>incoming_listens := 1\<rparr>) = metric_submission_time s0"
proof -
  note late = metrics_check_only_after_publish [OF insert_late_listen_a]
  note none = metrics_check_only_after_publish [OF insert_no_rows_listen_a]
  have n: "ls_insert env_no_rows [listen_a] = Returns []" by (simp add: fixture_defs)
  with none have "insert_to_listenstore (env_no_rows\<lparr>monotonic := 61\<rparr>) s0 [listen_a] =
       Some ([LsInsert [listen_a] None], s0\<lparr>incoming_listens := 1\<rparr>, Inr 1)
     \<and> metric_submission_time (s0\<lparr>incoming_listens := 1\<rparr>) = metric_submission_time s0"
    by blast
  moreover from late have "\<exists>u. u \<noteq> [] \<and> BasicPublish (unique_ch s0) (UNIQUE_EXCHANGE env_late) u None
       \<in> set [LsInsert [listen_a] None, IncrementListenCountForDay 1 None,
              BasicPublish 1 ''unique'' [listen_a] None, UpdateRecentListens [listen_a] None,
              MetricsSet 1 1 None]"
    by simp
  then have "BasicPublish (unique_ch s0) (UNIQUE_EXCHANGE env_late) [listen_a] None
       \<in> set [LsInsert [listen_a] None, IncrementListenCountForDay 1 None,
              BasicPublish 1 ''unique'' [listen_a] None, UpdateRecentListens [listen_a] None,
              MetricsSet 1 1 None]"
    by (simp add: fixture_defs)
  ultimately show ?thesis using n insert_late_listen_a by simp
qed

section \<open>The unique subset\<close>

lemma publish_in_count_for_day [simp]: "BasicPublish ch ex b e \<notin> set (count_for_day env n)"
  by (simp add: count_for_day_def split: outcome.splits)

lemma publish_in_retry_events:
  "BasicPublish ch ex b e \<in> set (publish_retry_events env u s k) \<Longrightarrow> b = u \<and> ch = unique_ch s"
  by (auto simp: publish_retry_events_def split: if_splits)

lemma publish_in_before_last:
  "BasicPublish ch ex b e \<in> set (before_last_publish env batch rows u s k) \<Longrightarrow> b = u \<and> ch = unique_ch s"
  by (auto simp: before_last_publish_def dest: publish_in_retry_events)

lemma publish_in_submit_metrics [simp]: "BasicPublish ch ex b e \<notin> set (fst (submit_metrics env s))"
  by (simp add: submit_metrics_def Let_def split: outcome.splits)

text \<open>What is published is the unique subset, on the channel the insertion started with.\<close>

lemma insert_publish_body:
  assumes "insert_to_listenstore env s batch = Some (evs, s', r)"
    and "BasicPublish ch ex b e \<in> set evs"
  shows "(\<exists>rows. ls_insert env batch = Returns rows \<and> unique_subset rows batch = Inr b) \<and> ch = unique_ch s"
  using assms
  by (cases rule: insert_outcomes) (auto dest: publish_in_before_last)

lemma matching_keys_permuted:
  assumes "mset batch' = mset batch" and "unique_subset rows batch = Inr u"
  shows "\<exists>u'. unique_subset rows batch' = Inr u' \<and> mset u' = mset u"
proof -
  from assms(1) have "set batch' = set batch" by (rule mset_eq_setD)
  with unique_subset_Inr(2) [OF assms(2)] have "\<forall>l \<in> set batch'. \<exists>k. listen_key l = Inr k" by simp
  then have "unique_subset rows batch' = Inr (matching_keys rows batch')" by (rule unique_subset_total)
  moreover have "mset (matching_keys rows batch') = mset (matching_keys rows batch)"
    using assms(1) by (simp add: matching_keys_def)
  ultimately show ?thesis using unique_subset_Inr(1) [OF assms(2)] by simp
qed

text \<open>
  What an insertion publishes is the unique subset of its batch for the rows the storage
  reported: listens of the batch, among them every listen whose triple is a reported row; a
  permutation of the batch gives a permutation of it.
\<close>

lemma published_is_unique_subset:
  assumes "insert_to_listenstore env s batch = Some (evs, s', r)"
    and "BasicPublish ch ex u e \<in> set evs"
  shows "\<exists>rows. ls_insert env batch = Returns rows
      \<and> unique_subset rows batch = Inr u
      \<and> set u \<subseteq> set batch
      \<and> (\<forall>l \<in> set batch. listen_triple l \<in> Some ` set rows \<longrightarrow> l \<in> set u)
      \<and> (\<forall>batch'. mset batch' = mset batch \<longrightarrow>
            (\<exists>u'. unique_subset rows batch' = Inr u' \<and> mset u' = mset u))"
proof -
  from insert_publish_body [OF assms] obtain rows
    where rows: "ls_insert env batch = Returns rows" and u: "unique_subset rows batch = Inr u"
    by blast
  from unique_subset_Inr(1) [OF u] have sub: "set u \<subseteq> set batch"
    by (auto simp: matching_keys_def)
  have tri: "\<forall>l \<in> set batch. listen_triple l \<in> Some ` set rows \<longrightarrow> l \<in> set u"
    using matching_triples_subset [of rows batch] unique_subset_Inr(1) [OF u]
    by (auto simp: matching_triples_def)
  have perm: "\<forall>batch'. mset batch' = mset batch \<longrightarrow>
            (\<exists>u'. unique_subset rows batch' = Inr u' \<and> mset u' = mset u)"
    using matching_keys_permuted [OF _ u] by blast
  from rows u sub tri perm show ?thesis by blast
qed

lemma insert_two_rows:
  "insert_to_listenstore env_two_rows s0 [listen_a, listen_b, listen_c] =
     Some ([LsInsert [listen_a, listen_b, listen_c] None, IncrementListenCountForDay 2 None,
            BasicPublish 1 ''unique'' [listen_b, listen_c] None,
            UpdateRecentListens [listen_b, listen_c] None],
           s0\<lparr>incoming_listens := 3, unique_listens := 2\<rparr>, Inr 3)"
  by (simp add: insert_eval key_eval fixture_defs)

text \<open>
  Claim C9. The reconciliation compares the strings \<^verbatim>\<open>'%d-%s-%s'\<close> of timestamp, track
  name and user name, not the triples. Two such strings are equal exactly when the
  timestamps are equal and the track name and the user name, joined by a hyphen, give the
  same string. So the unique subset is the listens of the batch, in order, for which some
  reported row has the same timestamp and the same joined names; the names themselves need
  not agree. The strings are the decimal timestamp, a hyphen, the track name, a hyphen, the
  user name: \<open>-120-t-u\<close>, \<open>1600000001-x-y\<close>. The listen with the triple \<open>(1, a-b, c)\<close>
  is selected, and published, when the only reported row is \<open>(1, a, b-c)\<close>: both join to
  \<open>1-a-b-c\<close>.
\<close>

theorem joined_strings_are_compared:
  "(unique_subset rows batch = Inr u \<longrightarrow>
      u = filter (\<lambda>l. \<exists>(a, b, c) \<in> set rows. \<exists>t. data l ''track_name'' = Some t
                 \<and> ts_since_epoch l = a \<and> t @ ''-'' @ user_name l = b @ ''-'' @ c) batch)
   \<and> (fmt_key a b c = fmt_key a' b' c' \<longleftrightarrow> a = a' \<and> b @ ''-'' @ c = b' @ ''-'' @ c')
   \<and> (data l ''track_name'' = Some t \<longrightarrow>
        listen_key l = Inr (fmt_d (ts_since_epoch l) @ ''-'' @ t @ ''-'' @ user_name l))
   \<and> row_key (a, b, c) = fmt_d a @ ''-'' @ b @ ''-'' @ c
   \<and> (i < 0 \<longrightarrow> fmt_d i = CHR ''-'' # fmt_d (- i))
   \<and> (0 \<le> i \<longrightarrow> set (fmt_d i) \<subseteq> set ''0123456789'' \<and> int (decimal_value (fmt_d i)) = i
        \<and> (0 < i \<longrightarrow> hd (fmt_d i) \<noteq> CHR ''0''))
   \<and> fmt_key (- 120) ''t'' ''u'' = ''-120-t-u''
   \<and> fmt_key 1600000001 ''x'' ''y'' = ''1600000001-x-y''
   \<and> fmt_key 0 [] [] = ''0--''
   \<and> listen_triple listen_a = Some (1, ''a-b'', ''c'')
   \<and> (1, ''a-b'', ''c'') \<notin> set [(1 :: int, ''a'', ''b-c'')]
   \<and> listen_key listen_a = Inr ''1-a-b-c''
   \<and> row_key (1, ''a'', ''b-c'') = ''1-a-b-c''
   \<and> unique_subset [(1, ''a'', ''b-c'')] [listen_a] = Inr [listen_a]
   \<and> insert_to_listenstore env_collision s0 [listen_a] =
       Some ([LsInsert [listen_a] None, IncrementListenCountForDay 1 None,
              BasicPublish 1 ''unique'' [listen_a] None, UpdateRecentListens [listen_a] None],
             s0\<lparr>incoming_listens := 1, unique_listens := 1\<rparr>, Inr 1)"
proof (intro conjI impI)
  assume "unique_subset rows batch = Inr u"
  then show "u = filter (\<lambda>l. \<exists>(a, b, c) \<in> set rows. \<exists>t. data l ''track_name'' = Some t
                 \<and> ts_since_epoch l = a \<and> t @ ''-'' @ user_name l = b @ ''-'' @ c) batch"
    by (rule unique_subset_joined)
next
  show "fmt_key a b c = fmt_key a' b' c' \<longleftrightarrow> a = a' \<and> b @ ''-'' @ c = b' @ ''-'' @ c'"
    by (rule fmt_key_eq_iff)
next
  assume "data l ''track_name'' = Some t"
  then show "listen_key l = Inr (fmt_d (ts_since_epoch l) @ ''-'' @ t @ ''-'' @ user_name l)"
    by (simp add: listen_key_def fmt_key_def)
next
  show "row_key (a, b, c) = fmt_d a @ ''-'' @ b @ ''-'' @ c" by (simp add: fmt_key_def)
next
  assume "i < 0"
  then show "fmt_d i = CHR ''-'' # fmt_d (- i)" by (simp add: fmt_d_def)
next
  assume "0 \<le> i"
  with nat_digits_digits [of "nat i"] show "set (fmt_d i) \<subseteq> set ''0123456789''"
    by (simp add: fmt_d_def)
next
  assume "0 \<le> i"
  then show "int (decimal_value (fmt_d i)) = i" by (simp add: fmt_d_def decimal_value_nat_digits)
next
  assume "0 \<le> i" and "0 < i"
  then show "hd (fmt_d i) \<noteq> CHR ''0''" by (simp add: fmt_d_def nat_digits_hd)
next
  show "fmt_key (- 120) ''t'' ''u'' = ''-120-t-u''" by (simp add: key_eval)
  show "fmt_key 1600000001 ''x'' ''y'' = ''1600000001-x-y''" by (simp add: key_eval)
  show "fmt_key 0 [] [] = ''0--''" by (simp add: key_eval)
  show "listen_triple listen_a = Some (1, ''a-b'', ''c'')"
    by (simp add: listen_triple_def listen_a_def)
  show "(1, ''a-b'', ''c'') \<notin> set [(1 :: int, ''a'', ''b-c'')]" by simp
  show "listen_key listen_a = Inr ''1-a-b-c''" by (simp add: key_eval listen_a_def)
  show "row_key (1, ''a'', ''b-c'') = ''1-a-b-c''" by (simp add: key_eval)
  show "unique_subset [(1, ''a'', ''b-c'')] [listen_a] = Inr [listen_a]"
    by (simp add: key_eval listen_a_def)
  show "insert_to_listenstore env_collision s0 [listen_a] =
       Some ([LsInsert [listen_a] None, IncrementListenCountForDay 1 None,
              BasicPublish 1 ''unique'' [listen_a] None, UpdateRecentListens [listen_a] None],
             s0\<lparr>incoming_listens := 1, unique_listens := 1\<rparr>, Inr 1)"
    by (simp add: insert_eval key_eval fixture_defs)
qed

text \<open>
  Claim C9 at the input of the claim, and at a batch of three listens of which the storage
  reports the second and the third.
\<close>

theorem joined_strings_are_compared_witness:
  "unique_subset [(1, ''a'', ''b-c'')] [listen_a] = Inr [listen_a]
   \<and> [listen_a] = filter (\<lambda>l. \<exists>(a, b, c) \<in> set [(1 :: int, ''a'', ''b-c'')]. \<exists>t.
            data l ''track_name'' = Some t \<and> ts_since_epoch l = a
            \<and> t @ ''-'' @ user_name l = b @ ''-'' @ c) [listen_a]
   \<and> fmt_key 1 ''a-b'' ''c'' = fmt_key 1 ''a'' ''b-c''
   \<and> fmt_key 1 ''a-b'' ''c'' \<noteq> fmt_key 2 ''a-b'' ''c''
   \<and> data listen_a ''track_name'' = Some ''a-b''
   \<and> listen_key listen_a = Inr (fmt_d 1 @ ''-'' @ ''a-b'' @ ''-'' @ ''c'')
   \<and> fmt_d (- 120) = CHR ''-'' # fmt_d 120
   \<and> int (decimal_value (fmt_d 120)) = 120"
proof -
  note at_a = joined_strings_are_compared [of "[(1, ''a'', ''b-c'')]" "[listen_a]" "[listen_a]"
      1 "''a-b''" "''c''" 1 "''a''" "''b-c''" listen_a "''a-b''" "- 120"]
  note at_2 = joined_strings_are_compared [of "[(1, ''a'', ''b-c'')]" "[listen_a]" "[listen_a]"
      1 "''a-b''" "''c''" 2 "''a-b''" "''c''" listen_a "''a-b''" 120]
  have t: "data listen_a ''track_name'' = Some ''a-b''" by (simp add: listen_a_def)
  have us: "unique_subset [(1, ''a'', ''b-c'')] [listen_a] = Inr [listen_a]"
    by (simp add: key_eval listen_a_def)
  from at_a [THEN conjunct1] us
  have sel: "[listen_a] = filter (\<lambda>l. \<exists>(a, b, c) \<in> set [(1 :: int, ''a'', ''b-c'')]. \<exists>t.
            data l ''track_name'' = Some t \<and> ts_since_epoch l = a
            \<and> t @ ''-'' @ user_name l = b @ ''-'' @ c) [listen_a]"
    by (rule mp)
  from at_a [THEN conjunct2, THEN conjunct1]
  have same: "fmt_key 1 ''a-b'' ''c'' = fmt_key 1 ''a'' ''b-c''" by simp
  from at_2 [THEN conjunct2, THEN conjunct1]
  have other: "fmt_key 1 ''a-b'' ''c'' \<noteq> fmt_key 2 ''a-b'' ''c''" by simp
  from at_a [THEN conjunct2, THEN conjunct2, THEN conjunct1] t
  have key: "listen_key listen_a = Inr (fmt_d (ts_since_epoch listen_a) @ ''-'' @ ''a-b'' @ ''-'' @ user_name listen_a)"
    by (rule mp)
  then have key': "listen_key listen_a = Inr (fmt_d 1 @ ''-'' @ ''a-b'' @ ''-'' @ ''c'')"
    by (simp add: listen_a_def)
  from at_a [THEN conjunct2, THEN conjunct2, THEN conjunct2, THEN conjunct2, THEN conjunct1]
  have neg: "fmt_d (- 120) = CHR ''-'' # fmt_d 120" by simp
  from at_2 [THEN conjunct2, THEN conjunct2, THEN conjunct2, THEN conjunct2, THEN conjunct2,
      THEN conjunct1]
  have dec: "int (decimal_value (fmt_d 120)) = 120" by simp
  from us sel same other t key' neg dec show ?thesis by (intro conjI)
qed

text \<open>
  Claim C2. The docstring of \<^verbatim>\<open>insert_to_listenstore\<close> says that the storage reports
  which rows were actually inserted and that those are sent down the unique queue, and the
  claim says the unique subset is exactly the listens whose composite key matches a reported
  row. The code does not do that when names contain hyphens. The batch holds \<open>listen_b\<close>,
  with the composite key \<open>(5, x-y, z)\<close>, and \<open>listen_e\<close>, with the composite key
  \<open>(5, x, y-z)\<close>; the storage reports the row of \<open>listen_e\<close> only. The listens whose
  composite key is a reported row are \<open>listen_e\<close> alone, and yet both are published as
  unique: both join to \<open>5-x-y-z\<close>.
\<close>

theorem unique_subset_not_by_triple:
  "insert_to_listenstore env_other_row s0 [listen_b, listen_e] =
     Some ([LsInsert [listen_b, listen_e] None, IncrementListenCountForDay 1 None,
            BasicPublish 1 ''unique'' [listen_b, listen_e] None,
            UpdateRecentListens [listen_b, listen_e] None],
           s0\<lparr>incoming_listens := 2, unique_listens := 2\<rparr>, Inr 2)
   \<and> ls_insert env_other_row [listen_b, listen_e] = Returns [(5, ''x'', ''y-z'')]
   \<and> listen_triple listen_b = Some (5, ''x-y'', ''z'')
   \<and> listen_triple listen_e = Some (5, ''x'', ''y-z'')
   \<and> listen_key listen_b = Inr ''5-x-y-z''
   \<and> listen_key listen_e = Inr ''5-x-y-z''
   \<and> matching_triples [(5, ''x'', ''y-z'')] [listen_b, listen_e] = [listen_e]
   \<and> unique_subset [(5, ''x'', ''y-z'')] [listen_b, listen_e] = Inr [listen_b, listen_e]
   \<and> unique_subset [(5, ''x'', ''y-z'')] [listen_b, listen_e]
       \<noteq> Inr (matching_triples [(5, ''x'', ''y-z'')] [listen_b, listen_e])"
  by (simp add: insert_eval key_eval fixture_defs)

section \<open>The counters\<close>

lemma submit_metrics_accounting:
  "incoming_listens (fst (snd (submit_metrics env s))) + emitted_incoming (fst (submit_metrics env s))
     = incoming_listens s"
  "unique_listens (fst (snd (submit_metrics env s))) + emitted_unique (fst (submit_metrics env s))
     = unique_listens s"
  by (simp_all add: submit_metrics_def Let_def split: outcome.splits)

lemma submit_metrics_flush:
  "filter is_metrics (fst (submit_metrics env s)) = [] \<and> snd (snd (submit_metrics env s)) = None
     \<and> \<not> monotonic env > metric_submission_time s
     \<and> metric_submission_time (fst (snd (submit_metrics env s))) = metric_submission_time s
   \<or> filter is_metrics (fst (submit_metrics env s)) = [MetricsSet (incoming_listens s) (unique_listens s) None]
     \<and> snd (snd (submit_metrics env s)) = None
     \<and> monotonic env > metric_submission_time s
     \<and> incoming_listens (fst (snd (submit_metrics env s))) = 0
     \<and> unique_listens (fst (snd (submit_metrics env s))) = 0
     \<and> metric_submission_time (fst (snd (submit_metrics env s)))
         = float_add (metric_submission_time s) METRIC_UPDATE_INTERVAL
   \<or> (\<exists>e. filter is_metrics (fst (submit_metrics env s))
              = [MetricsSet (incoming_listens s) (unique_listens s) (Some e)]
     \<and> snd (snd (submit_metrics env s)) = Some e
     \<and> monotonic env > metric_submission_time s
     \<and> incoming_listens (fst (snd (submit_metrics env s))) = incoming_listens s
     \<and> unique_listens (fst (snd (submit_metrics env s))) = unique_listens s
     \<and> metric_submission_time (fst (snd (submit_metrics env s)))
         = float_add (metric_submission_time s) METRIC_UPDATE_INTERVAL)"
  by (cases "metrics_set env (incoming_listens s) (unique_listens s)")
     (simp_all add: submit_metrics_def Let_def)

lemma insert_accounting:
  assumes "insert_to_listenstore env s batch = Some (evs, s', r)"
  shows "attempted evs = (if batch = [] then 0 else int (length batch))"
    and "incoming_listens s' + emitted_incoming evs = incoming_listens s + attempted evs"
    and "unique_listens s' + emitted_unique evs = unique_listens s + published evs"
  using assms
  by (cases rule: insert_outcomes; simp add: submit_metrics_accounting)+

lemma insert_flush:
  assumes "insert_to_listenstore env s batch = Some (evs, s', r)"
  shows "filter is_metrics evs = [] \<and> metric_submission_time s' = metric_submission_time s
       \<or> filter is_metrics evs
            = [MetricsSet (incoming_listens s + attempted evs) (unique_listens s + published evs) None]
         \<and> r = Inr (int (length batch)) \<and> monotonic env > metric_submission_time s
         \<and> incoming_listens s' = 0 \<and> unique_listens s' = 0
         \<and> metric_submission_time s' = float_add (metric_submission_time s) METRIC_UPDATE_INTERVAL
       \<or> (\<exists>e. filter is_metrics evs
                 = [MetricsSet (incoming_listens s + attempted evs) (unique_listens s + published evs) (Some e)]
         \<and> r = Inl e \<and> monotonic env > metric_submission_time s
         \<and> incoming_listens s' = incoming_listens s + attempted evs
         \<and> unique_listens s' = unique_listens s + published evs
         \<and> metric_submission_time s' = float_add (metric_submission_time s) METRIC_UPDATE_INTERVAL)"
  using assms
proof (cases rule: insert_outcomes)
  case (completed rows u k)
  from submit_metrics_flush [of env "((connect_to_rabbitmq ^^ k) (counted s batch))
                      \<lparr>unique_listens := unique_listens s + int (length u)\<rparr>"] completed
  show ?thesis by auto
next
  case (metrics_raised rows u k e)
  from submit_metrics_flush [of env "((connect_to_rabbitmq ^^ k) (counted s batch))
                      \<lparr>unique_listens := unique_listens s + int (length u)\<rparr>"] metrics_raised
  show ?thesis by auto
qed simp_all

lemma run_accounting:
  "run_batches bs s = Some (evs, s') \<Longrightarrow>
     incoming_listens s' + emitted_incoming evs = incoming_listens s + attempted evs
     \<and> unique_listens s' + emitted_unique evs = unique_listens s + published evs"
proof (induction bs arbitrary: s evs s')
  case Nil
  then show ?case by simp
next
  case (Cons b bs)
  obtain env batch where b: "b = (env, batch)" by (cases b)
  from Cons.prems b obtain evs1 s1 r where
    first: "insert_to_listenstore env s batch = Some (evs1, s1, r)"
    by (auto split: option.splits)
  note acc = insert_accounting(2,3) [OF first]
  show ?case
  proof (cases r)
    case (Inl e)
    with Cons.prems b first have "evs = evs1" "s' = s1" by simp_all
    with acc show ?thesis by simp
  next
    case (Inr n)
    with Cons.prems b first obtain evs2 where
      rest: "run_batches bs s1 = Some (evs2, s')" and evs: "evs = evs1 @ evs2"
      by (auto split: option.splits)
    from Cons.IH [OF rest] acc evs show ?thesis by simp
  qed
qed

text \<open>
  Claim C6, as amended. Every insertion that is not empty adds the length of its batch to
  \<open>incoming_listens\<close> once, before the storage is called, whatever the storage then does;
  \<open>unique_listens\<close> grows once, by the length of the unique subset, in an insertion that
  published it and updated the recent listens. A flush happens only when the clock has passed
  the deadline; it moves the deadline by one floating-point addition of the interval (the
  sum rounded to a double: exact when it is an integer below \<open>2 ^ 53\<close>, and within a
  relative error of \<open>2 ^ -53\<close> otherwise) and hands both totals to the metrics sink once. If the sink returns, both counters are reset;
  if it raises, the exception leaves the insertion and the counters keep the totals. Without
  a flush the deadline stays. Over an insertion, and over any run of insertions, what the
  sink has taken plus what the counters hold is what they held at the start plus what was
  added: nothing is counted twice and nothing is lost.
\<close>

theorem counters_accounting:
  "(\<forall>evs s' r. insert_to_listenstore env s batch = Some (evs, s', r) \<longrightarrow>
      attempted evs = (if batch = [] then 0 else int (length batch))
      \<and> incoming_listens s' + emitted_incoming evs = incoming_listens s + attempted evs
      \<and> unique_listens s' + emitted_unique evs = unique_listens s + published evs
      \<and> (filter is_metrics evs = [] \<and> metric_submission_time s' = metric_submission_time s
         \<or> filter is_metrics evs
              = [MetricsSet (incoming_listens s + attempted evs) (unique_listens s + published evs) None]
           \<and> r = Inr (int (length batch)) \<and> monotonic env > metric_submission_time s
           \<and> incoming_listens s' = 0 \<and> unique_listens s' = 0
           \<and> metric_submission_time s' = float_add (metric_submission_time s) METRIC_UPDATE_INTERVAL
         \<or> (\<exists>e. filter is_metrics evs
                   = [MetricsSet (incoming_listens s + attempted evs) (unique_listens s + published evs) (Some e)]
           \<and> r = Inl e \<and> monotonic env > metric_submission_time s
           \<and> incoming_listens s' = incoming_listens s + attempted evs
           \<and> unique_listens s' = unique_listens s + published evs
           \<and> metric_submission_time s' = float_add (metric_submission_time s) METRIC_UPDATE_INTERVAL)))
   \<and> (\<forall>evs s'. run_batches bs s = Some (evs, s') \<longrightarrow>
        incoming_listens s' + emitted_incoming evs = incoming_listens s + attempted evs
        \<and> unique_listens s' + emitted_unique evs = unique_listens s + published evs)
   \<and> (1 \<le> \<bar>d + METRIC_UPDATE_INTERVAL\<bar> \<and> \<bar>d + METRIC_UPDATE_INTERVAL\<bar> < 2 ^ 1024 \<longrightarrow>
        \<bar>float_add d METRIC_UPDATE_INTERVAL - (d + METRIC_UPDATE_INTERVAL)\<bar>
          \<le> \<bar>d + METRIC_UPDATE_INTERVAL\<bar> / 2 ^ 53)
   \<and> (d + METRIC_UPDATE_INTERVAL = of_int m \<and> \<bar>m\<bar> < 2 ^ 53 \<longrightarrow>
        float_add d METRIC_UPDATE_INTERVAL = d + METRIC_UPDATE_INTERVAL)"
proof (intro conjI allI impI)
  assume "1 \<le> \<bar>d + METRIC_UPDATE_INTERVAL\<bar> \<and> \<bar>d + METRIC_UPDATE_INTERVAL\<bar> < 2 ^ 1024"
  then show "\<bar>float_add d METRIC_UPDATE_INTERVAL - (d + METRIC_UPDATE_INTERVAL)\<bar>
          \<le> \<bar>d + METRIC_UPDATE_INTERVAL\<bar> / 2 ^ 53"
    by (intro float_add_near) simp_all
next
  assume "d + METRIC_UPDATE_INTERVAL = of_int m \<and> \<bar>m\<bar> < 2 ^ 53"
  then show "float_add d METRIC_UPDATE_INTERVAL = d + METRIC_UPDATE_INTERVAL"
    by (intro float_add_exact [of _ _ m]) simp_all
next
  fix evs s' r
  assume ret: "insert_to_listenstore env s batch = Some (evs, s', r)"
  show "attempted evs = (if batch = [] then 0 else int (length batch))"
    by (rule insert_accounting(1) [OF ret])
  show "incoming_listens s' + emitted_incoming evs = incoming_listens s + attempted evs"
    by (rule insert_accounting(2) [OF ret])
  show "unique_listens s' + emitted_unique evs = unique_listens s + published evs"
    by (rule insert_accounting(3) [OF ret])
  show "filter is_metrics evs = [] \<and> metric_submission_time s' = metric_submission_time s
         \<or> filter is_metrics evs
              = [MetricsSet (incoming_listens s + attempted evs) (unique_listens s + published evs) None]
           \<and> r = Inr (int (length batch)) \<and> monotonic env > metric_submission_time s
           \<and> incoming_listens s' = 0 \<and> unique_listens s' = 0
           \<and> metric_submission_time s' = float_add (metric_submission_time s) METRIC_UPDATE_INTERVAL
         \<or> (\<exists>e. filter is_metrics evs
                   = [MetricsSet (incoming_listens s + attempted evs) (unique_listens s + published evs) (Some e)]
           \<and> r = Inl e \<and> monotonic env > metric_submission_time s
           \<and> incoming_listens s' = incoming_listens s + attempted evs
           \<and> unique_listens s' = unique_listens s + published evs
           \<and> metric_submission_time s' = float_add (metric_submission_time s) METRIC_UPDATE_INTERVAL)"
    by (rule insert_flush [OF ret])
next
  fix evs s'
  assume run: "run_batches bs s = Some (evs, s')"
  from run_accounting [OF run]
  show "incoming_listens s' + emitted_incoming evs = incoming_listens s + attempted evs"
    and "unique_listens s' + emitted_unique evs = unique_listens s + published evs"
    by simp_all
qed

lemma run_three_batches:
  "run_batches [(env_ok, [listen_a]), (env_late, [listen_a, listen_b]), (env_ok, [listen_c])] s0 =
     Some ([LsInsert [listen_a] None, IncrementListenCountForDay 1 None,
            BasicPublish 1 ''unique'' [listen_a] None, UpdateRecentListens [listen_a] None,
            LsInsert [listen_a, listen_b] None, IncrementListenCountForDay 2 None,
            BasicPublish 1 ''unique'' [listen_a, listen_b] None,
            UpdateRecentListens [listen_a, listen_b] None,
            MetricsSet 3 3 None,
            LsInsert [listen_c] None, IncrementListenCountForDay 1 None,
            BasicPublish 1 ''unique'' [listen_c] None, UpdateRecentListens [listen_c] None],
           s0\<lparr>incoming_listens := 1, unique_listens := 1, metric_submission_time := 120\<rparr>)"
  by (simp add: insert_eval key_eval fixture_defs)

lemma insert_late_two:
  "insert_to_listenstore env_late (s0\<lparr>incoming_listens := 1, unique_listens := 1\<rparr>) [listen_a, listen_b] =
     Some ([LsInsert [listen_a, listen_b] None, IncrementListenCountForDay 2 None,
            BasicPublish 1 ''unique'' [listen_a, listen_b] None,
            UpdateRecentListens [listen_a, listen_b] None,
            MetricsSet 3 3 None],
           s0\<lparr>incoming_listens := 0, unique_listens := 0, metric_submission_time := 120\<rparr>, Inr 2)"
  by (simp add: insert_eval key_eval fixture_defs)

lemma insert_metrics_down_two:
  "insert_to_listenstore env_metrics_down (s0\<lparr>incoming_listens := 1, unique_listens := 1\<rparr>)
       [listen_a, listen_b] =
     Some ([LsInsert [listen_a, listen_b] None, IncrementListenCountForDay 2 None,
            BasicPublish 1 ''unique'' [listen_a, listen_b] None,
            UpdateRecentListens [listen_a, listen_b] None,
            MetricsSet 3 3 (Some OtherException)],
           s0\<lparr>incoming_listens := 3, unique_listens := 3, metric_submission_time := 120\<rparr>,
           Inl OtherException)"
  by (simp add: insert_eval key_eval fixture_defs)

text \<open>
  The deadline is the double \<^verbatim>\<open>8.21\<close>. The first insertion, at clock \<^verbatim>\<open>9.0\<close>,
  flushes and moves the deadline to the double \<^verbatim>\<open>68.21000000000001\<close>; the second, at
  that very clock reading, does not flush, although the clock is past the exact sum.
\<close>

lemma run_rounded_deadline:
  "run_batches [(env_at_9, [listen_a]), (env_at_68, [listen_a])] s_early =
     Some ([LsInsert [listen_a] None, IncrementListenCountForDay 1 None,
            BasicPublish 1 ''unique'' [listen_a] None, UpdateRecentListens [listen_a] None,
            MetricsSet 1 1 None,
            LsInsert [listen_a] None, IncrementListenCountForDay 1 None,
            BasicPublish 1 ''unique'' [listen_a] None, UpdateRecentListens [listen_a] None],
           s0\<lparr>incoming_listens := 1, unique_listens := 1,
              metric_submission_time := 2399926020179231 / 35184372088832\<rparr>)"
  by (simp add: insert_eval key_eval fixture_defs)

text \<open>
  Claim C6, as amended, at concrete inputs: an insertion that flushes, one whose flush
  fails, a run of three insertions of which the second flushes, and a run of two in which the
  rounded deadline decides.
\<close>

theorem counters_accounting_witness:
  "(\<exists>evs s'. insert_to_listenstore env_late (s0\<lparr>incoming_listens := 1, unique_listens := 1\<rparr>)
                 [listen_a, listen_b] = Some (evs, s', Inr 2)
       \<and> attempted evs = 2 \<and> published evs = 2 \<and> filter is_metrics evs = [MetricsSet 3 3 None]
       \<and> incoming_listens s' = 0 \<and> unique_listens s' = 0
       \<and> metric_submission_time s' = 120)
   \<and> (\<exists>evs s'. insert_to_listenstore env_metrics_down (s0\<lparr>incoming_listens := 1, unique_listens := 1\<rparr>)
                 [listen_a, listen_b] = Some (evs, s', Inl OtherException)
       \<and> attempted evs = 2 \<and> published evs = 2
       \<and> filter is_metrics evs = [MetricsSet 3 3 (Some OtherException)]
       \<and> emitted_incoming evs = 0 \<and> emitted_unique evs = 0
       \<and> incoming_listens s' = 3 \<and> unique_listens s' = 3
       \<and> metric_submission_time s' = 120)
   \<and> (\<exists>evs s'. run_batches [(env_ok, [listen_a]), (env_late, [listen_a, listen_b]), (env_ok, [listen_c])] s0
                 = Some (evs, s')
       \<and> attempted evs = 4 \<and> published evs = 4
       \<and> emitted_incoming evs = 3 \<and> emitted_unique evs = 3
       \<and> incoming_listens s' = 1 \<and> unique_listens s' = 1)
   \<and> (\<exists>evs s'. run_batches [(env_at_9, [listen_a]), (env_at_68, [listen_a])] s_early = Some (evs, s')
       \<and> attempted evs = 2 \<and> published evs = 2
       \<and> filter is_metrics evs = [MetricsSet 1 1 None]
       \<and> emitted_incoming evs = 1 \<and> emitted_unique evs = 1
       \<and> incoming_listens s' = 1 \<and> unique_listens s' = 1
       \<and> metric_submission_time s' = float_add (metric_submission_time s_early) METRIC_UPDATE_INTERVAL
       \<and> metric_submission_time s_early + METRIC_UPDATE_INTERVAL < metric_submission_time s'
       \<and> monotonic env_at_68 = metric_submission_time s')
   \<and> float_add 60 METRIC_UPDATE_INTERVAL = 60 + METRIC_UPDATE_INTERVAL"
proof -
  note late = counters_accounting [of env_late "s0\<lparr>incoming_listens := 1, unique_listens := 1\<rparr>"
      "[listen_a, listen_b]"
      "[(env_ok, [listen_a]), (env_late, [listen_a, listen_b]), (env_ok, [listen_c])]" 60 120]
  note down = counters_accounting [of env_metrics_down "s0\<lparr>incoming_listens := 1, unique_listens := 1\<rparr>"
      "[listen_a, listen_b]" "[(env_at_9, [listen_a]), (env_at_68, [listen_a])]" 60 120]
  have one: "\<exists>evs s'. insert_to_listenstore env_late (s0\<lparr>incoming_listens := 1, unique_listens := 1\<rparr>)
                 [listen_a, listen_b] = Some (evs, s', Inr 2)
       \<and> attempted evs = 2 \<and> published evs = 2 \<and> filter is_metrics evs = [MetricsSet 3 3 None]
       \<and> incoming_listens s' = 0 \<and> unique_listens s' = 0
       \<and> metric_submission_time s' = 120"
    using late insert_late_two by (simp add: s0_def)
  have two: "\<exists>evs s'. insert_to_listenstore env_metrics_down (s0\<lparr>incoming_listens := 1, unique_listens := 1\<rparr>)
                 [listen_a, listen_b] = Some (evs, s', Inl OtherException)
       \<and> attempted evs = 2 \<and> published evs = 2
       \<and> filter is_metrics evs = [MetricsSet 3 3 (Some OtherException)]
       \<and> emitted_incoming evs = 0 \<and> emitted_unique evs = 0
       \<and> incoming_listens s' = 3 \<and> unique_listens s' = 3
       \<and> metric_submission_time s' = 120"
    using down insert_metrics_down_two by (simp add: s0_def)
  have three: "\<exists>evs s'. run_batches [(env_ok, [listen_a]), (env_late, [listen_a, listen_b]), (env_ok, [listen_c])] s0
                 = Some (evs, s')
       \<and> attempted evs = 4 \<and> published evs = 4
       \<and> emitted_incoming evs = 3 \<and> emitted_unique evs = 3
       \<and> incoming_listens s' = 1 \<and> unique_listens s' = 1"
    using late run_three_batches by (simp add: s0_def)
  have four: "\<exists>evs s'. run_batches [(env_at_9, [listen_a]), (env_at_68, [listen_a])] s_early = Some (evs, s')
       \<and> attempted evs = 2 \<and> published evs = 2
       \<and> filter is_metrics evs = [MetricsSet 1 1 None]
       \<and> emitted_incoming evs = 1 \<and> emitted_unique evs = 1
       \<and> incoming_listens s' = 1 \<and> unique_listens s' = 1
       \<and> metric_submission_time s' = float_add (metric_submission_time s_early) METRIC_UPDATE_INTERVAL
       \<and> metric_submission_time s_early + METRIC_UPDATE_INTERVAL < metric_submission_time s'
       \<and> monotonic env_at_68 = metric_submission_time s'"
    using run_rounded_deadline
    by (simp add: s0_def s_early_def env_at_68_def env_ok_def METRIC_UPDATE_INTERVAL_def)
  from late have five: "float_add 60 METRIC_UPDATE_INTERVAL = 60 + METRIC_UPDATE_INTERVAL"
    by (simp add: METRIC_UPDATE_INTERVAL_def)
  from one two three four five show ?thesis by (intro conjI)
qed

text \<open>
  Claim C6 as stated fails: the insertion that ends in the sentinel has counted its batch, and
  when the same batch is delivered again and succeeds, \<open>incoming_listens\<close> holds 2 for one
  batch of one listen that was processed successfully once.
\<close>

theorem incoming_counted_on_transient_failure:
  "insert_to_listenstore env_down s0 [listen_a] =
     Some ([LsInsert [listen_a] (Some OperationalError), LogError ''Cannot write data to listenstore: %s. Sleep.'',
            Sleep 3], s0\<lparr>incoming_listens := 1\<rparr>, Inr LISTEN_INSERT_ERROR_SENTINEL)
   \<and> run_batches [(env_down, [listen_a]), (env_ok, [listen_a])] s0 =
     Some ([LsInsert [listen_a] (Some OperationalError), LogError ''Cannot write data to listenstore: %s. Sleep.'',
            Sleep 3,
            LsInsert [listen_a] None, IncrementListenCountForDay 1 None,
            BasicPublish 1 ''unique'' [listen_a] None, UpdateRecentListens [listen_a] None],
           s0\<lparr>incoming_listens := 2, unique_listens := 1\<rparr>)"
  by (simp add: insert_eval key_eval fixture_defs)

text \<open>
  Claim C8 at a concrete input: the first attempt to publish finds the connection closed. The
  writer connects again, so that its connection is a new one, and publishes again on the
  channel it had, the one opened on the first connection; no channel is opened on the new
  connection.
\<close>

theorem publish_retried_on_the_old_channel:
  "open_channels \<lparr>connection = 0, incoming_ch = 0, unique_ch = 0, incoming_listens = 0,
                  unique_listens = 0, metric_submission_time = 60\<rparr> = s0
   \<and> basic_publish env_closed_once 0 = Raises ConnectionClosed
   \<and> insert_to_listenstore env_closed_once s0 [listen_a] =
     Some ([LsInsert [listen_a] None, IncrementListenCountForDay 1 None,
            BasicPublish 1 ''unique'' [listen_a] (Some ConnectionClosed), ConnectToRabbitmq,
            BasicPublish 1 ''unique'' [listen_a] None, UpdateRecentListens [listen_a] None],
           \<lparr>connection = 2, incoming_ch = 1, unique_ch = 1, incoming_listens = 1,
            unique_listens = 1, metric_submission_time = 60\<rparr>, Inr 1)"
  by (simp add: insert_eval key_eval fixture_defs connect_to_rabbitmq_def open_channels_def)

section \<open>Enrichment: all or nothing\<close>

lemma kept_records_Nil [simp]: "kept_records [] = []"
  by (simp add: kept_records_def)

lemma kept_records_Cons_Some:
  "augment l resp = Inr (Some l') \<Longrightarrow> kept_records ((l, resp) # ps) = l' # kept_records ps"
  by (simp add: kept_records_def)

lemma kept_records_all:
  "\<forall>p \<in> set ps. \<exists>l. augment (fst p) (snd p) = Inr (Some l) \<Longrightarrow> length (kept_records ps) = length ps"
proof (induction ps)
  case Nil
  then show ?case by simp
next
  case (Cons p ps)
  then obtain l where "augment (fst p) (snd p) = Inr (Some l)" by auto
  then have "kept_records (p # ps) = l # kept_records ps"
    using kept_records_Cons_Some [of "fst p" "snd p" l ps] by simp
  with Cons show ?case by simp
qed

text \<open>The second loop keeps every record or none.\<close>

lemma augment_loop_Inr:
  "augment_loop ps acc = (evs, Inr out) \<Longrightarrow>
     (\<exists>p \<in> set ps. augment (fst p) (snd p) = Inr None) \<and> out = []
     \<or> (\<forall>p \<in> set ps. \<exists>l. augment (fst p) (snd p) = Inr (Some l)) \<and> out = acc @ kept_records ps"
proof (induction ps arbitrary: acc)
  case Nil
  then show ?case by simp
next
  case (Cons p ps)
  obtain l resp where p: "p = (l, resp)" by (cases p)
  show ?case
  proof (cases "augment l resp")
    case (Inl e)
    with Cons.prems p show ?thesis by simp
  next
    case (Inr a)
    show ?thesis
    proof (cases a)
      case None
      with Cons.prems p Inr show ?thesis by simp
    next
      case (Some l')
      with Cons.prems p Inr have "augment_loop ps (acc @ [l']) = (evs, Inr out)" by simp
      from Cons.IH [OF this] p Inr Some show ?thesis
        by (auto simp: kept_records_Cons_Some)
    qed
  qed
qed

lemma augment_loop_events:
  "augment_loop ps acc = (evs, r) \<Longrightarrow> filter is_ack_attempt evs = []"
proof (induction ps arbitrary: acc)
  case Nil
  then show ?case by auto
next
  case (Cons p ps)
  obtain l resp where p: "p = (l, resp)" by (cases p)
  show ?case
  proof (cases "augment l resp")
    case (Inl e)
    with Cons.prems p show ?thesis by auto
  next
    case (Inr a)
    show ?thesis
    proof (cases a)
      case None
      with Cons.prems p Inr show ?thesis by auto
    next
      case (Some l')
      with Cons.prems p Inr have "augment_loop ps (acc @ [l']) = (evs, r)" by simp
      then show ?thesis by (rule Cons.IH)
    qed
  qed
qed

text \<open>What a lookup that returns has done.\<close>

lemma messybrainz_lookup_Inr:
  assumes "messybrainz_lookup env listens = (evs, Inr out)"
  shows "\<exists>reqs. build_requests env listens [] = Inr reqs \<and>
     ((\<exists>e. submit_listens env reqs = Raises e \<and> (e = BadDataException \<or> e = ErrorAddingException)
          \<and> out = [])
      \<or> (\<exists>resp payload. submit_listens env reqs = Returns resp
            \<and> bindE (getitem resp ''payload'') py_iter = Inr payload
            \<and> ((\<exists>p \<in> set (zip listens payload). augment (fst p) (snd p) = Inr None) \<and> out = []
               \<or> (\<forall>p \<in> set (zip listens payload). \<exists>l. augment (fst p) (snd p) = Inr (Some l))
                 \<and> out = kept_records (zip listens payload))))"
proof (cases "build_requests env listens []")
  case (Inl e)
  with assms show ?thesis by (simp add: messybrainz_lookup_def)
next
  case reqs: (Inr reqs)
  show ?thesis
  proof (cases "submit_listens env reqs")
    case (Raises e)
    with assms reqs show ?thesis
      by (auto simp: messybrainz_lookup_def split: if_splits)
  next
    case (Returns resp)
    show ?thesis
    proof (cases "bindE (getitem resp ''payload'') py_iter")
      case (Inl e)
      with assms reqs Returns show ?thesis by (simp add: messybrainz_lookup_def)
    next
      case (Inr payload)
      with assms reqs Returns obtain evs' where
        "augment_loop (zip listens payload) [] = (evs', Inr out)"
        by (auto simp: messybrainz_lookup_def split: prod.splits)
      from augment_loop_Inr [OF this] reqs Returns Inr show ?thesis by auto
    qed
  qed
qed

lemma messybrainz_lookup_events:
  assumes "messybrainz_lookup env listens = (evs, r)"
  shows "filter is_ack_attempt evs = []"
proof (cases "build_requests env listens []")
  case (Inl e)
  with assms show ?thesis by (auto simp: messybrainz_lookup_def)
next
  case reqs: (Inr reqs)
  show ?thesis
  proof (cases "submit_listens env reqs")
    case (Raises e)
    with assms reqs show ?thesis
      by (auto simp: messybrainz_lookup_def split: if_splits)
  next
    case (Returns resp)
    show ?thesis
    proof (cases "bindE (getitem resp ''payload'') py_iter")
      case (Inl e)
      with assms reqs Returns show ?thesis by (auto simp: messybrainz_lookup_def)
    next
      case (Inr payload)
      obtain evs' r' where loop: "augment_loop (zip listens payload) [] = (evs', r')"
        by (cases "augment_loop (zip listens payload) []")
      with assms reqs Returns Inr have "evs = SubmitListens reqs None # evs'"
        by (auto simp: messybrainz_lookup_def)
      with augment_loop_events [OF loop] show ?thesis by simp
    qed
  qed
qed

lemma enrich_chunks_Inr:
  "enrich_chunks env chunks acc = (evs, Inr out) \<Longrightarrow>
     out = acc @ concat (map (lookup_output env) chunks)
     \<and> (\<forall>c \<in> set chunks. \<exists>evs1 found. messybrainz_lookup env c = (evs1, Inr found))"
proof (induction chunks arbitrary: acc evs)
  case Nil
  then show ?case by simp
next
  case (Cons c chunks)
  obtain evs1 r where look: "messybrainz_lookup env c = (evs1, r)" by (cases "messybrainz_lookup env c")
  show ?case
  proof (cases r)
    case (Inl e)
    with Cons.prems look show ?thesis by simp
  next
    case (Inr found)
    with Cons.prems look obtain evs2 where
      rest: "enrich_chunks env chunks (acc @ found) = (evs2, Inr out)"
      by (auto split: prod.splits)
    from Cons.IH [OF rest] look Inr show ?thesis
      by (auto simp: lookup_output_def)
  qed
qed

lemma enrich_chunks_events:
  "enrich_chunks env chunks acc = (evs, r) \<Longrightarrow> filter is_ack_attempt evs = []"
proof (induction chunks arbitrary: acc evs r)
  case Nil
  then show ?case by simp
next
  case (Cons c chunks)
  obtain evs1 r1 where look: "messybrainz_lookup env c = (evs1, r1)" by (cases "messybrainz_lookup env c")
  note no1 = messybrainz_lookup_events [OF look]
  show ?case
  proof (cases r1)
    case (Inl e)
    with Cons.prems look no1 show ?thesis by simp
  next
    case (Inr found)
    obtain evs2 r2 where rest: "enrich_chunks env chunks (acc @ found) = (evs2, r2)"
      by (cases "enrich_chunks env chunks (acc @ found)")
    from Cons.prems look Inr rest have "evs = evs1 @ evs2" by auto
    with Cons.IH [OF rest] no1 show ?thesis by simp
  qed
qed

section \<open>Chunks\<close>

lemma chunked_unfold:
  "take n xs = [] \<Longrightarrow> chunked xs n = []"
  "take n xs \<noteq> [] \<Longrightarrow> chunked xs n = take n xs # chunked (drop n xs) n"
  by (subst chunked.simps, simp)+

lemma chunked_concat: "0 < n \<Longrightarrow> concat (chunked xs n) = xs"
proof (induction xs n rule: chunked.induct)
  case (1 xs n)
  show ?case
  proof (cases "take n xs = []")
    case True
    with "1.prems" have "xs = []" by simp
    with True show ?thesis by (simp add: chunked_unfold(1))
  next
    case False
    with "1.IH" "1.prems" show ?thesis by (simp add: chunked_unfold(2))
  qed
qed

lemma chunked_bounds: "c \<in> set (chunked xs n) \<Longrightarrow> c \<noteq> [] \<and> length c \<le> n"
proof (induction xs n rule: chunked.induct)
  case (1 xs n)
  show ?case
  proof (cases "take n xs = []")
    case True
    with "1.prems" show ?thesis by (simp add: chunked_unfold(1))
  next
    case False
    with "1.prems" have "c = take n xs \<or> c \<in> set (chunked (drop n xs) n)"
      by (simp add: chunked_unfold(2))
    with False "1.IH" show ?thesis by auto
  qed
qed

lemma getitem_Inr_JObj: "getitem d k = Inr v \<Longrightarrow> \<exists>kvs. d = JObj kvs \<and> map_of kvs k = Some v"
  by (auto simp: getitem_def split: json.splits option.splits)

lemma getitem_KeyError_JObj: "getitem d k = Inl KeyError \<Longrightarrow> \<exists>kvs. d = JObj kvs \<and> map_of kvs k = None"
  by (auto simp: getitem_def split: json.splits option.splits)

lemma setitem_JObj [simp]: "setitem (JObj kvs) k v = Inr (JObj (AList.update k v kvs))"
  by (simp add: setitem_def)

lemma getitem_JObj [simp]:
  "getitem (JObj kvs) k = (case map_of kvs k of None \<Rightarrow> Inl KeyError | Some v \<Rightarrow> Inr v)"
  by (simp add: getitem_def)

lemma bindE_simps [simp]: "bindE (Inl e) f = Inl e" "bindE (Inr v) f = f v"
  by (simp_all add: bindE_def)

lemma bindE_eq_Inl: "bindE m f = Inl e \<longleftrightarrow> m = Inl e \<or> (\<exists>v. m = Inr v \<and> f v = Inl e)"
  by (cases m) simp_all

lemma bindE_eq_Inr: "bindE m f = Inr x \<longleftrightarrow> (\<exists>v. m = Inr v \<and> f v = Inr x)"
  by (cases m) simp_all

lemma setitem_not_KeyError: "setitem d k v \<noteq> Inl KeyError"
  by (simp add: setitem_def split: json.splits)

lemma contains_not_KeyError: "contains d k \<noteq> Inl KeyError"
  by (simp add: contains_def split: json.splits)

text \<open>After \<open>ensure_additional_info\<close> the record is a dict whose track metadata can be read.\<close>

lemma ensure_additional_info_Inr:
  assumes "ensure_additional_info l = Inr l0"
  shows "\<exists>kvs tm. l0 = JObj kvs \<and> map_of kvs ''track_metadata'' = Some tm
           \<and> getitem tm ''additional_info'' \<noteq> Inl KeyError"
proof -
  from assms obtain tm where tm: "getitem l ''track_metadata'' = Inr tm"
    by (auto simp: ensure_additional_info_def bindE_eq_Inr)
  then obtain kvs where l: "l = JObj kvs" and look: "map_of kvs ''track_metadata'' = Some tm"
    by (auto dest: getitem_Inr_JObj)
  from assms tm obtain present where present: "contains tm ''additional_info'' = Inr present"
    by (auto simp: ensure_additional_info_def bindE_eq_Inr)
  show ?thesis
  proof (cases present)
    case True
    with assms tm present have "l0 = l" by (simp add: ensure_additional_info_def)
    moreover have "getitem tm ''additional_info'' \<noteq> Inl KeyError"
      using present True
      by (auto simp: contains_def getitem_def map_of_eq_None_iff split: json.splits option.splits)
    ultimately show ?thesis using l look by simp
  next
    case False
    with assms tm present obtain tkvs where tkvs: "tm = JObj tkvs"
      by (cases tm) (auto simp: ensure_additional_info_def setitem_def)
    with assms tm present False l
    have "l0 = JObj (AList.update ''track_metadata'' (JObj (AList.update ''additional_info'' (JObj []) tkvs)) kvs)"
      by (simp add: ensure_additional_info_def)
    then show ?thesis by (simp add: update_conv')
  qed
qed

lemma set_additional_info_not_KeyError:
  assumes "l = JObj kvs" and "map_of kvs ''track_metadata'' = Some tm"
    and "getitem tm ''additional_info'' \<noteq> Inl KeyError"
  shows "set_additional_info l k v \<noteq> Inl KeyError"
  using assms
  by (auto simp: set_additional_info_def bindE_eq_Inl setitem_not_KeyError)

text \<open>The first \<^verbatim>\<open>try\<close> catches a \<^verbatim>\<open>KeyError\<close> exactly when a mandatory identifier is missing.\<close>

lemma augment_None_iff:
  "augment l resp = Inr None \<longleftrightarrow>
     (\<exists>ids l0. getitem resp ''ids'' = Inr ids \<and> ensure_additional_info l = Inr l0 \<and> lacks_mandatory ids)"
proof
  assume a: "augment l resp = Inr None"
  then obtain ids where ids: "getitem resp ''ids'' = Inr ids"
    by (auto simp: augment_def bindE_eq_Inr)
  with a obtain l0 where l0: "ensure_additional_info l = Inr l0"
    by (auto simp: augment_def bindE_eq_Inr)
  from ensure_additional_info_Inr [OF l0] obtain kvs tm where
    shape: "l0 = JObj kvs" "map_of kvs ''track_metadata'' = Some tm"
      "getitem tm ''additional_info'' \<noteq> Inl KeyError"
    by blast
  from a ids l0 have err: "set_mandatory_ids l0 ids = Inl KeyError"
    by (auto simp: augment_def bindE_eq_Inr split: sum.splits if_splits)
  have "lacks_mandatory ids"
  proof (rule ccontr)
    assume no: "\<not> lacks_mandatory ids"
    from err no obtain rec where rec: "getitem ids ''recording_msid'' = Inr rec"
      by (auto simp: set_mandatory_ids_def bindE_eq_Inl lacks_mandatory_def)
    from err no rec shape(1) obtain art where art: "getitem ids ''artist_msid'' = Inr art"
      and bad: "set_additional_info (JObj (AList.update ''recording_msid'' rec kvs)) ''artist_msid'' art = Inl KeyError"
      by (auto simp: set_mandatory_ids_def bindE_eq_Inl lacks_mandatory_def)
    have "map_of (AList.update ''recording_msid'' rec kvs) ''track_metadata'' = Some tm"
      using shape(2) by (simp add: update_conv')
    from set_additional_info_not_KeyError [OF refl this shape(3)] bad show False by blast
  qed
  with ids l0 show "\<exists>ids l0. getitem resp ''ids'' = Inr ids \<and> ensure_additional_info l = Inr l0 \<and> lacks_mandatory ids"
    by blast
next
  assume "\<exists>ids l0. getitem resp ''ids'' = Inr ids \<and> ensure_additional_info l = Inr l0 \<and> lacks_mandatory ids"
  then obtain ids l0 where ids: "getitem resp ''ids'' = Inr ids"
    and l0: "ensure_additional_info l = Inr l0" and lacks: "lacks_mandatory ids"
    by blast
  from ensure_additional_info_Inr [OF l0] obtain kvs where shape: "l0 = JObj kvs" by blast
  have "set_mandatory_ids l0 ids = Inl KeyError"
  proof (cases "getitem ids ''recording_msid'' = Inl KeyError")
    case True
    then show ?thesis by (simp add: set_mandatory_ids_def)
  next
    case False
    with lacks have art: "getitem ids ''artist_msid'' = Inl KeyError" by (simp add: lacks_mandatory_def)
    then obtain ikvs where "ids = JObj ikvs" by (auto dest: getitem_KeyError_JObj)
    with False obtain rec where "getitem ids ''recording_msid'' = Inr rec"
      by (auto split: option.splits)
    with art shape show ?thesis by (simp add: set_mandatory_ids_def)
  qed
  with ids l0 show "augment l resp = Inr None" by (simp add: augment_def)
qed

text \<open>
  Claim C3, as amended. When the enrichment loop returns, its output is the concatenation, in
  order, of what the sub-batches give; the sub-batches are not empty, hold at most \<open>n\<close>
  records and, for \<open>n > 0\<close>, make up the input. A sub-batch gives nothing when its lookup
  raised \<^verbatim>\<open>BadDataException\<close> or \<^verbatim>\<open>ErrorAddingException\<close>, and nothing when
  the response of one of its records lacks a mandatory identifier: the whole sub-batch is
  dropped then, not the one record. Otherwise it gives every record that is paired with a
  response, enriched.
\<close>

theorem enrichment_keeps_whole_sub_batches:
  assumes "enrich_chunks env (chunked listens n) [] = (evs, Inr msb_listens)"
  shows "msb_listens = concat (map (lookup_output env) (chunked listens n))
       \<and> (0 < n \<longrightarrow> concat (chunked listens n) = listens)
       \<and> (\<forall>chunk \<in> set (chunked listens n). chunk \<noteq> [] \<and> length chunk \<le> n \<and>
            (\<exists>reqs. build_requests env chunk [] = Inr reqs \<and>
               ((\<exists>e. submit_listens env reqs = Raises e
                     \<and> (e = BadDataException \<or> e = ErrorAddingException)
                     \<and> lookup_output env chunk = [])
                \<or> (\<exists>resp payload. submit_listens env reqs = Returns resp
                      \<and> bindE (getitem resp ''payload'') py_iter = Inr payload
                      \<and> ((\<exists>p \<in> set (zip chunk payload).
                              \<exists>ids l0. getitem (snd p) ''ids'' = Inr ids
                                \<and> ensure_additional_info (fst p) = Inr l0 \<and> lacks_mandatory ids)
                           \<and> lookup_output env chunk = []
                         \<or> (\<forall>p \<in> set (zip chunk payload). \<exists>l. augment (fst p) (snd p) = Inr (Some l))
                           \<and> lookup_output env chunk = kept_records (zip chunk payload)
                           \<and> length (lookup_output env chunk) = min (length chunk) (length payload))))))"
proof (intro conjI ballI impI)
  from enrich_chunks_Inr [OF assms]
  show "msb_listens = concat (map (lookup_output env) (chunked listens n))" by simp
next
  assume "0 < n"
  then show "concat (chunked listens n) = listens" by (rule chunked_concat)
next
  fix chunk assume chunk: "chunk \<in> set (chunked listens n)"
  from chunked_bounds [OF chunk] show "chunk \<noteq> []" and "length chunk \<le> n" by simp_all
  from enrich_chunks_Inr [OF assms] chunk obtain evs1 found where
    look: "messybrainz_lookup env chunk = (evs1, Inr found)" by blast
  then have out: "lookup_output env chunk = found" by (simp add: lookup_output_def)
  from messybrainz_lookup_Inr [OF look] obtain reqs where
    reqs: "build_requests env chunk [] = Inr reqs"
    and alt: "(\<exists>e. submit_listens env reqs = Raises e \<and> (e = BadDataException \<or> e = ErrorAddingException)
          \<and> found = [])
      \<or> (\<exists>resp payload. submit_listens env reqs = Returns resp
            \<and> bindE (getitem resp ''payload'') py_iter = Inr payload
            \<and> ((\<exists>p \<in> set (zip chunk payload). augment (fst p) (snd p) = Inr None) \<and> found = []
               \<or> (\<forall>p \<in> set (zip chunk payload). \<exists>l. augment (fst p) (snd p) = Inr (Some l))
                 \<and> found = kept_records (zip chunk payload)))"
    by blast
  have len: "length (kept_records (zip chunk payload)) = min (length chunk) (length payload)"
    if "\<forall>p \<in> set (zip chunk payload). \<exists>l. augment (fst p) (snd p) = Inr (Some l)" for payload
    using that by (simp add: kept_records_all)
  from alt
  have "(\<exists>e. submit_listens env reqs = Raises e
                     \<and> (e = BadDataException \<or> e = ErrorAddingException)
                     \<and> lookup_output env chunk = [])
                \<or> (\<exists>resp payload. submit_listens env reqs = Returns resp
                      \<and> bindE (getitem resp ''payload'') py_iter = Inr payload
                      \<and> ((\<exists>p \<in> set (zip chunk payload).
                              \<exists>ids l0. getitem (snd p) ''ids'' = Inr ids
                                \<and> ensure_additional_info (fst p) = Inr l0 \<and> lacks_mandatory ids)
                           \<and> lookup_output env chunk = []
                         \<or> (\<forall>p \<in> set (zip chunk payload). \<exists>l. augment (fst p) (snd p) = Inr (Some l))
                           \<and> lookup_output env chunk = kept_records (zip chunk payload)
                           \<and> length (lookup_output env chunk) = min (length chunk) (length payload)))"
    unfolding out augment_None_iff [symmetric] using len by blast
  with reqs
  show "\<exists>reqs. build_requests env chunk [] = Inr reqs \<and>
               ((\<exists>e. submit_listens env reqs = Raises e
                     \<and> (e = BadDataException \<or> e = ErrorAddingException)
                     \<and> lookup_output env chunk = [])
                \<or> (\<exists>resp payload. submit_listens env reqs = Returns resp
                      \<and> bindE (getitem resp ''payload'') py_iter = Inr payload
                      \<and> ((\<exists>p \<in> set (zip chunk payload).
                              \<exists>ids l0. getitem (snd p) ''ids'' = Inr ids
                                \<and> ensure_additional_info (fst p) = Inr l0 \<and> lacks_mandatory ids)
                           \<and> lookup_output env chunk = []
                         \<or> (\<forall>p \<in> set (zip chunk payload). \<exists>l. augment (fst p) (snd p) = Inr (Some l))
                           \<and> lookup_output env chunk = kept_records (zip chunk payload)
                           \<and> length (lookup_output env chunk) = min (length chunk) (length payload))))"
    by blast
qed

lemmas json_eval = bindE_def getitem_def contains_def setitem_def py_iter_def copy_key_def
  copy_artist_mbids_def messy_dict_of_def ensure_additional_info_def set_additional_info_def
  set_mandatory_ids_def set_release_msid_def augment_def messybrainz_lookup_def
  kept_records_def lookup_output_def answer_def resp_ok_def resp_bad_def
  raw_a_def raw_b_def raw_c_def raw_d_def req_a_def req_b_def req_c_def req_d_def aug_a_def aug_c_def
  aug_d_def
  to_listen_def

lemma augment_a: "augment raw_a resp_ok = Inr (Some aug_a)"
  by (simp add: json_eval)

lemma augment_b: "augment raw_b resp_bad = Inr None"
  by (simp add: json_eval)

lemma augment_c: "augment raw_c resp_ok = Inr (Some aug_c)"
  by (simp add: json_eval)

lemma requests_ab: "build_requests env_ok [raw_a, raw_b] [] = Inr [req_a, req_b]"
  by (simp add: json_eval)

lemma requests_c: "build_requests env_ok [raw_c] [] = Inr [req_c]"
  by (simp add: json_eval)

lemma answers_ab: "submit_listens env_ok [req_a, req_b] = Returns (JObj [(''payload'', JArr [resp_ok, resp_bad])])"
  by (simp add: env_ok_def answer_def req_a_def req_b_def)

lemma answers_c: "submit_listens env_ok [req_c] = Returns (JObj [(''payload'', JArr [resp_ok])])"
  by (simp add: env_ok_def answer_def req_c_def)

lemma lookup_ab:
  "messybrainz_lookup env_ok [raw_a, raw_b] =
     ([SubmitListens [req_a, req_b] None, LogError ''MessyBrainz did not return a proper set of ids''],
      Inr [])"
  by (simp add: messybrainz_lookup_def requests_ab answers_ab augment_a augment_b py_iter_def
           del: build_requests.simps)

lemma lookup_c:
  "messybrainz_lookup env_ok [raw_c] = ([SubmitListens [req_c] None], Inr [aug_c])"
  by (simp add: messybrainz_lookup_def requests_c answers_c augment_c py_iter_def
           del: build_requests.simps)

lemma chunked_abc: "chunked [raw_a, raw_b, raw_c] 2 = [[raw_a, raw_b], [raw_c]]"
  by (simp add: chunked_unfold)

lemma enrich_abc:
  "enrich_chunks env_ok (chunked [raw_a, raw_b, raw_c] 2) [] =
     ([SubmitListens [req_a, req_b] None, LogError ''MessyBrainz did not return a proper set of ids'',
       SubmitListens [req_c] None], Inr [aug_c])"
  by (simp add: chunked_abc lookup_ab lookup_c)

text \<open>
  Claim C3 as stated fails: of a sub-batch of two records, the response of the second lacks
  the artist identifier. The first record taken alone is enriched, and the claim keeps it; the
  lookup returns no record at all.
\<close>

theorem one_missing_id_drops_the_sub_batch:
  "messybrainz_lookup env_ok [raw_a, raw_b] =
     ([SubmitListens [req_a, req_b] None, LogError ''MessyBrainz did not return a proper set of ids''],
      Inr [])
   \<and> submit_listens env_ok [req_a, req_b] = Returns (JObj [(''payload'', JArr [resp_ok, resp_bad])])
   \<and> augment raw_a resp_ok = Inr (Some aug_a)
   \<and> augment raw_b resp_bad = Inr None
   \<and> kept_records (zip [raw_a, raw_b] [resp_ok, resp_bad]) = [aug_a]
   \<and> snd (messybrainz_lookup env_ok [raw_a, raw_b])
       \<noteq> Inr (kept_records (zip [raw_a, raw_b] [resp_ok, resp_bad]))"
  by (simp add: lookup_ab answers_ab augment_a augment_b kept_records_def)

text \<open>
  Claim C3, as amended, at three records in sub-batches of two: the first sub-batch is dropped
  for its second record, the second one is kept.
\<close>

theorem enrichment_keeps_whole_sub_batches_witness:
  "enrich_chunks env_ok (chunked [raw_a, raw_b, raw_c] 2) [] =
     ([SubmitListens [req_a, req_b] None, LogError ''MessyBrainz did not return a proper set of ids'',
       SubmitListens [req_c] None], Inr [aug_c])
   \<and> [aug_c] = concat (map (lookup_output env_ok) (chunked [raw_a, raw_b, raw_c] 2))
   \<and> concat (chunked [raw_a, raw_b, raw_c] 2) = [raw_a, raw_b, raw_c]
   \<and> chunked [raw_a, raw_b, raw_c] 2 = [[raw_a, raw_b], [raw_c]]
   \<and> lookup_output env_ok [raw_a, raw_b] = []
   \<and> lookup_output env_ok [raw_c] = [aug_c]"
  using enrichment_keeps_whole_sub_batches [OF enrich_abc] enrich_abc
  by (simp add: chunked_abc lookup_output_def lookup_ab lookup_c)

section \<open>Parsing\<close>

lemma parsed_Nil [simp]: "parsed env [] = []"
  by (simp add: parsed_def)

lemma parsed_Cons:
  "parsed env (l # ls) = (case from_json env l of Returns x \<Rightarrow> [x] | Raises e \<Rightarrow> []) @ parsed env ls"
  by (simp add: parsed_def)

lemma parse_listens_Inr:
  "parse_listens env ls acc = Inr submit \<Longrightarrow>
     submit = acc @ parsed env ls \<and> (\<forall>l \<in> set ls. \<forall>e. from_json env l = Raises e \<longrightarrow> e = ValueError)"
proof (induction ls arbitrary: acc)
  case Nil
  then show ?case by simp
next
  case (Cons l ls)
  show ?case
  proof (cases "from_json env l")
    case (Returns x)
    with Cons.prems have "parse_listens env ls (acc @ [x]) = Inr submit" by simp
    from Cons.IH [OF this] Returns show ?thesis by (simp add: parsed_Cons)
  next
    case (Raises e)
    with Cons.prems have e: "e = ValueError" by (simp split: if_splits)
    with Cons.prems Raises have "parse_listens env ls acc = Inr submit" by simp
    from Cons.IH [OF this] Raises e show ?thesis by (simp add: parsed_Cons)
  qed
qed

lemma parse_listens_total:
  "\<forall>l \<in> set ls. \<forall>e. from_json env l = Raises e \<longrightarrow> e = ValueError \<Longrightarrow>
     parse_listens env ls acc = Inr (acc @ parsed env ls)"
proof (induction ls arbitrary: acc)
  case Nil
  then show ?case by simp
next
  case (Cons l ls)
  show ?case
  proof (cases "from_json env l")
    case (Returns x)
    with Cons show ?thesis by (simp add: parsed_Cons)
  next
    case (Raises e)
    with Cons.prems have "e = ValueError" by simp
    with Cons Raises show ?thesis by (simp add: parsed_Cons)
  qed
qed

lemma submit_of_events:
  assumes "submit_of env body = (evs, r)"
  shows "filter is_ack_attempt evs = []"
proof (cases "py_iter body")
  case (Inl e)
  with assms show ?thesis by (auto simp: submit_of_def)
next
  case (Inr listens)
  obtain evs1 r1 where en: "enrich_chunks env (chunked listens (MAX_ITEMS_PER_MESSYBRAINZ_LOOKUP env)) [] = (evs1, r1)"
    by (cases "enrich_chunks env (chunked listens (MAX_ITEMS_PER_MESSYBRAINZ_LOOKUP env)) []")
  with assms Inr have "evs = evs1" by (auto simp: submit_of_def split: sum.splits)
  with enrich_chunks_events [OF en] show ?thesis by simp
qed

section \<open>The acknowledgment loop\<close>

lemma ack_retry_events_Suc:
  "ack_retry_events tag s (Suc k) =
     [BasicAck (incoming_ch s) tag (Some ConnectionClosed), ConnectToRabbitmq]
     @ ack_retry_events tag (connect_to_rabbitmq s) k"
  by (simp add: ack_retry_events_def)

lemma ack_loop_skip:
  "\<forall>j<k. basic_ack env (i + j) = Raises ConnectionClosed \<Longrightarrow>
   ack_loop env tag i evs s =
   ack_loop env tag (i + k) (evs @ ack_retry_events tag s k) ((connect_to_rabbitmq ^^ k) s)"
proof (induction k arbitrary: i evs s)
  case 0
  then show ?case by (simp add: ack_retry_events_def)
next
  case (Suc k)
  note first = closed_until_split(1) [OF Suc.prems] and rest = closed_until_split(2) [OF Suc.prems]
  have "ack_loop env tag i evs s =
        ack_loop env tag (Suc i)
          (evs @ [BasicAck (incoming_ch s) tag (Some ConnectionClosed), ConnectToRabbitmq])
          (connect_to_rabbitmq s)"
    using first by (subst ack_loop.simps) simp
  also have "\<dots> = ack_loop env tag (Suc i + k)
          ((evs @ [BasicAck (incoming_ch s) tag (Some ConnectionClosed), ConnectToRabbitmq])
             @ ack_retry_events tag (connect_to_rabbitmq s) k)
          ((connect_to_rabbitmq ^^ k) (connect_to_rabbitmq s))"
    by (rule Suc.IH [OF rest])
  finally show ?case
    by (simp add: ack_retry_events_Suc funpow_swap1)
qed

lemma ack_loop_returns:
  assumes "ack_closed_until env i k"
  shows "ack_loop env tag i evs s =
     Some (evs @ ack_retry_events tag s k @ fst (ack_last env tag s (i + k)),
           (connect_to_rabbitmq ^^ k) s, snd (ack_last env tag s (i + k)))"
proof -
  from assms have closed: "\<forall>j<k. basic_ack env (i + j) = Raises ConnectionClosed"
    and last: "basic_ack env (i + k) \<noteq> Raises ConnectionClosed"
    by (simp_all add: ack_closed_until_def)
  have "ack_loop env tag i evs s =
        ack_loop env tag (i + k) (evs @ ack_retry_events tag s k) ((connect_to_rabbitmq ^^ k) s)"
    by (rule ack_loop_skip [OF closed])
  also have "\<dots> = Some (evs @ ack_retry_events tag s k @ fst (ack_last env tag s (i + k)),
           (connect_to_rabbitmq ^^ k) s, snd (ack_last env tag s (i + k)))"
    using last by (subst ack_loop.simps) (simp add: ack_last_def split: outcome.splits)
  finally show ?thesis .
qed

lemma ack_loop_Some_closed_until:
  assumes ret: "ack_loop env tag i evs s = Some r"
  shows "\<exists>k. ack_closed_until env i k"
proof (rule ack_loop.raw_induct [where P = "\<lambda>env tag i evs s r. \<exists>k. ack_closed_until env i k", OF _ ret])
  fix f env tag i evs s r
  assume IH: "\<And>env tag i evs s r. f env tag i evs s = Some r \<Longrightarrow> \<exists>k. ack_closed_until env i k"
    and eq: "(case basic_ack env i of
        Returns u \<Rightarrow> Some (evs @ [BasicAck (incoming_ch s) tag None], s, None)
      | Raises e \<Rightarrow>
          if e = ConnectionClosed
          then f env tag (Suc i)
                 (evs @ [BasicAck (incoming_ch s) tag (Some e), ConnectToRabbitmq])
                 (connect_to_rabbitmq s)
          else Some (evs @ [BasicAck (incoming_ch s) tag (Some e)], s, Some e)) = Some r"
  show "\<exists>k. ack_closed_until env i k"
  proof (cases "basic_ack env i = Raises ConnectionClosed")
    case False
    then have "ack_closed_until env i 0" by (simp add: ack_closed_until_def)
    then show ?thesis ..
  next
    case True
    with eq have "f env tag (Suc i)
                 (evs @ [BasicAck (incoming_ch s) tag (Some ConnectionClosed), ConnectToRabbitmq])
                 (connect_to_rabbitmq s) = Some r" by simp
    then obtain k where k: "ack_closed_until env (Suc i) k" using IH by blast
    then have "\<forall>j<k. basic_ack env (Suc i + j) = Raises ConnectionClosed"
      and last: "basic_ack env (i + Suc k) \<noteq> Raises ConnectionClosed"
      by (simp_all add: ack_closed_until_def)
    from closed_until_Suc [OF True this(1)] last
    have "ack_closed_until env i (Suc k)" by (simp add: ack_closed_until_def)
    then show ?thesis ..
  qed
qed

lemma ack_loop_never:
  assumes "\<forall>j. basic_ack env (i + j) = Raises ConnectionClosed"
  shows "ack_loop env tag i evs s = None"
proof (cases "ack_loop env tag i evs s")
  case None
  then show ?thesis .
next
  case (Some r)
  from ack_loop_Some_closed_until [OF Some] assms show ?thesis
    by (auto simp: ack_closed_until_def)
qed

lemma ack_retry_events_reads [simp]:
  "filter (is_ack t) (ack_retry_events tag s k) = []"
  "attempted (ack_retry_events tag s k) = 0" "published (ack_retry_events tag s k) = 0"
  "filter is_metrics (ack_retry_events tag s k) = []"
  "filter is_log (ack_retry_events tag s k) = []"
  by (induction k) (simp_all add: ack_retry_events_def)

lemma ack_retry_events_members:
  "e \<in> set (ack_retry_events tag s k) \<Longrightarrow> is_ack_attempt e \<or> e = ConnectToRabbitmq"
  by (auto simp: ack_retry_events_def split: if_splits)

lemma no_attempt_no_ack: "filter is_ack_attempt evs = [] \<Longrightarrow> filter (is_ack t) evs = []"
proof (induction evs)
  case Nil
  then show ?case by simp
next
  case (Cons e evs)
  then show ?case by (cases e) (auto split: if_splits)
qed

lemma insert_events_no_ack:
  assumes "insert_to_listenstore env s batch = Some (evs, s', r)"
  shows "filter is_ack_attempt evs = []"
  using assms
  by (cases rule: insert_outcomes) simp_all

section \<open>The callback: acknowledgment\<close>

text \<open>Every callback that returns, with what it did.\<close>

lemma callback_outcomes:
  assumes ret: "callback env s tag body = Some (evs, s', r)"
  obtains
    (prepare_raised) e where "submit_of env body = (evs, Inl e)" "s' = s" "r = Inl e"
  | (insert_raised) evs1 submit evs2 e where "submit_of env body = (evs1, Inr submit)"
      "insert_to_listenstore env s submit = Some (evs2, s', Inl e)" "evs = evs1 @ evs2" "r = Inl e"
  | (unacked) evs1 submit evs2 where "submit_of env body = (evs1, Inr submit)"
      "insert_to_listenstore env s submit = Some (evs2, s', Inr LISTEN_INSERT_ERROR_SENTINEL)"
      "evs = evs1 @ evs2" "r = Inr LISTEN_INSERT_ERROR_SENTINEL"
  | (ack_raised) evs1 submit evs2 s2 n k e where "submit_of env body = (evs1, Inr submit)"
      "insert_to_listenstore env s submit = Some (evs2, s2, Inr n)" "n \<noteq> LISTEN_INSERT_ERROR_SENTINEL"
      "ack_closed_until env 0 k" "basic_ack env k = Raises e" "e \<noteq> ConnectionClosed"
      "evs = evs1 @ evs2 @ ack_retry_events tag s2 k @ [BasicAck (incoming_ch s2) tag (Some e)]"
      "s' = (connect_to_rabbitmq ^^ k) s2" "r = Inl e"
  | (acked) evs1 submit evs2 s2 n k where "submit_of env body = (evs1, Inr submit)"
      "insert_to_listenstore env s submit = Some (evs2, s2, Inr n)" "n \<noteq> LISTEN_INSERT_ERROR_SENTINEL"
      "ack_closed_until env 0 k" "basic_ack env k = Returns ()"
      "evs = evs1 @ evs2 @ ack_retry_events tag s2 k @ [BasicAck (incoming_ch s2) tag None]"
      "s' = (connect_to_rabbitmq ^^ k) s2" "r = Inr n"
proof -
  obtain evs1 r1 where prep: "submit_of env body = (evs1, r1)" by (cases "submit_of env body")
  show ?thesis
  proof (cases r1)
    case (Inl e)
    with ret prep show ?thesis by (auto simp: callback_def intro: prepare_raised)
  next
    case (Inr submit)
    with ret prep obtain evs2 s2 r2 where ins: "insert_to_listenstore env s submit = Some (evs2, s2, r2)"
      by (auto simp: callback_def split: option.splits)
    show ?thesis
    proof (cases r2)
      case (Inl e)
      with ret prep Inr ins show ?thesis by (auto simp: callback_def intro: insert_raised)
    next
      case n: (Inr n)
      show ?thesis
      proof (cases "n = LISTEN_INSERT_ERROR_SENTINEL")
        case True
        with ret prep Inr ins n show ?thesis by (auto simp: callback_def intro: unacked)
      next
        case False
        with ret prep Inr ins n obtain r3 where loop: "ack_loop env tag 0 (evs1 @ evs2) s2 = Some r3"
          by (auto simp: callback_def split: option.splits)
        from ack_loop_Some_closed_until [OF loop] obtain k where k: "ack_closed_until env 0 k" ..
        note closed = ack_loop_returns [OF k, of tag "evs1 @ evs2" s2]
        show ?thesis
        proof (cases "basic_ack env k")
          case (Returns u)
          with ret prep Inr ins n False closed
          have "evs = evs1 @ evs2 @ ack_retry_events tag s2 k @ [BasicAck (incoming_ch s2) tag None]
              \<and> s' = (connect_to_rabbitmq ^^ k) s2 \<and> r = Inr n"
            by (simp add: callback_def ack_last_def)
          with prep Inr ins n False k Returns show ?thesis by (auto intro: acked)
        next
          case (Raises e)
          with k have "e \<noteq> ConnectionClosed" by (auto simp: ack_closed_until_def)
          moreover from Raises ret prep Inr ins n False closed
          have "evs = evs1 @ evs2 @ ack_retry_events tag s2 k @ [BasicAck (incoming_ch s2) tag (Some e)]
              \<and> s' = (connect_to_rabbitmq ^^ k) s2 \<and> r = Inl e"
            by (simp add: callback_def ack_last_def)
          ultimately show ?thesis using prep Inr ins n False k Raises by (auto intro: ack_raised)
        qed
      qed
    qed
  qed
qed

lemma ack_tags:
  "filter (is_ack t) [BasicAck ch tag None] = (if t = tag then [BasicAck ch tag None] else [])"
  by simp

text \<open>
  Claim C1. A callback that returns a value returns what the insertion returned. If that is
  the sentinel, no acknowledgment was attempted; if it is not, exactly one acknowledgment
  succeeded, for the tag of the delivery, and none for any other tag. A callback that is left by
  an exception has acknowledged nothing. An insertion that returns the sentinel makes the
  callback return at once; one that returns anything else makes it return as soon as the broker
  accepts the acknowledgment after finitely many closed connections.
\<close>

theorem ack_iff_no_transient_failure:
  "(\<forall>evs s' r. callback env s delivery_tag body = Some (evs, s', r) \<longrightarrow>
      (case r of
         Inr n \<Rightarrow>
           (\<exists>evs1 submit evs2 s2. submit_of env body = (evs1, Inr submit)
              \<and> insert_to_listenstore env s submit = Some (evs2, s2, Inr n))
           \<and> (if n = LISTEN_INSERT_ERROR_SENTINEL then filter is_ack_attempt evs = []
              else (\<exists>ch. \<forall>t. filter (is_ack t) evs = (if t = delivery_tag then [BasicAck ch delivery_tag None] else [])))
       | Inl e \<Rightarrow> (\<forall>t. filter (is_ack t) evs = [])))
   \<and> (\<forall>evs1 submit evs2 s2 n. submit_of env body = (evs1, Inr submit)
          \<and> insert_to_listenstore env s submit = Some (evs2, s2, Inr n) \<longrightarrow>
        (n = LISTEN_INSERT_ERROR_SENTINEL \<longrightarrow> callback env s delivery_tag body = Some (evs1 @ evs2, s2, Inr n))
        \<and> (n \<noteq> LISTEN_INSERT_ERROR_SENTINEL \<longrightarrow>
             (\<forall>k. ack_closed_until env 0 k \<and> basic_ack env k = Returns () \<longrightarrow>
                (\<exists>evs s'. callback env s delivery_tag body = Some (evs, s', Inr n)))))"
proof (intro conjI allI impI)
  fix evs s' r
  assume ret: "callback env s delivery_tag body = Some (evs, s', r)"
  then show "case r of
         Inr n \<Rightarrow>
           (\<exists>evs1 submit evs2 s2. submit_of env body = (evs1, Inr submit)
              \<and> insert_to_listenstore env s submit = Some (evs2, s2, Inr n))
           \<and> (if n = LISTEN_INSERT_ERROR_SENTINEL then filter is_ack_attempt evs = []
              else (\<exists>ch. \<forall>t. filter (is_ack t) evs = (if t = delivery_tag then [BasicAck ch delivery_tag None] else [])))
       | Inl e \<Rightarrow> (\<forall>t. filter (is_ack t) evs = [])"
  proof (cases rule: callback_outcomes)
    case (prepare_raised e)
    from submit_of_events [OF prepare_raised(1)] prepare_raised show ?thesis
      by (simp add: no_attempt_no_ack)
  next
    case (insert_raised evs1 submit evs2 e)
    from submit_of_events [OF insert_raised(1)] insert_events_no_ack [OF insert_raised(2)] insert_raised
    show ?thesis by (simp add: no_attempt_no_ack)
  next
    case (unacked evs1 submit evs2)
    from submit_of_events [OF unacked(1)] insert_events_no_ack [OF unacked(2)] unacked
    show ?thesis by auto
  next
    case (ack_raised evs1 submit evs2 s2 n k e)
    from submit_of_events [OF ack_raised(1)] insert_events_no_ack [OF ack_raised(2)] ack_raised
    show ?thesis by (simp add: no_attempt_no_ack)
  next
    case (acked evs1 submit evs2 s2 n k)
    from submit_of_events [OF acked(1)] insert_events_no_ack [OF acked(2)]
    have "\<forall>t. filter (is_ack t) evs = (if t = delivery_tag then [BasicAck (incoming_ch s2) delivery_tag None] else [])"
      using acked(6) by (simp add: no_attempt_no_ack)
    with acked show ?thesis by auto
  qed
next
  fix evs1 submit evs2 s2 n
  assume pre: "submit_of env body = (evs1, Inr submit)
          \<and> insert_to_listenstore env s submit = Some (evs2, s2, Inr n)"
  {
    assume "n = LISTEN_INSERT_ERROR_SENTINEL"
    with pre show "callback env s delivery_tag body = Some (evs1 @ evs2, s2, Inr n)"
      by (simp add: callback_def)
  }
  {
    fix k
    assume n: "n \<noteq> LISTEN_INSERT_ERROR_SENTINEL"
      and k: "ack_closed_until env 0 k \<and> basic_ack env k = Returns ()"
    then have "ack_closed_until env 0 k" by simp
    from ack_loop_returns [OF this, of delivery_tag "evs1 @ evs2" s2] pre n k
    show "\<exists>evs s'. callback env s delivery_tag body = Some (evs, s', Inr n)"
      by (simp add: callback_def ack_last_def)
  }
qed

text \<open>
  Claim C7, as amended. The parse loop keeps, in order, the records that convert and drops each
  record whose conversion raises \<^verbatim>\<open>ValueError\<close>; it returns unless a conversion raises
  something else. Parsing adds no event, so no drop is logged. The callback inserts the
  records that were kept, and everything after the lookups is the insertion of these records
  and the acknowledgment: the counters see the kept records only, and no drop is counted.
\<close>

theorem parse_failures_dropped_silently:
  "(\<forall>submit. parse_listens env msb_listens [] = Inr submit \<longrightarrow>
      submit = parsed env msb_listens
      \<and> (\<forall>l \<in> set msb_listens. \<forall>e. from_json env l = Raises e \<longrightarrow> e = ValueError))
   \<and> ((\<forall>l \<in> set msb_listens. \<forall>e. from_json env l = Raises e \<longrightarrow> e = ValueError) \<longrightarrow>
        parse_listens env msb_listens [] = Inr (parsed env msb_listens))
   \<and> (\<forall>listens evs1. py_iter body = Inr listens
          \<and> enrich_chunks env (chunked listens (MAX_ITEMS_PER_MESSYBRAINZ_LOOKUP env)) [] = (evs1, Inr msb_listens) \<longrightarrow>
        submit_of env body = (evs1, parse_listens env msb_listens []))
   \<and> (\<forall>evs s' r evs1 submit. callback env s delivery_tag body = Some (evs, s', r)
          \<and> submit_of env body = (evs1, Inr submit) \<longrightarrow>
        (\<exists>evs2 s2 r2 evs3. insert_to_listenstore env s submit = Some (evs2, s2, r2)
           \<and> evs = evs1 @ evs2 @ evs3
           \<and> filter is_log evs3 = [] \<and> attempted evs3 = 0 \<and> filter is_metrics evs3 = []
           \<and> incoming_listens s2 + emitted_incoming evs2 = incoming_listens s + int (length submit)
           \<and> incoming_listens s' = incoming_listens s2 \<and> unique_listens s' = unique_listens s2
           \<and> metric_submission_time s' = metric_submission_time s2))"
proof (intro conjI allI impI)
  fix submit
  assume p: "parse_listens env msb_listens [] = Inr submit"
  from parse_listens_Inr [OF p] show "submit = parsed env msb_listens" by simp
  from parse_listens_Inr [OF p]
  show "\<forall>l \<in> set msb_listens. \<forall>e. from_json env l = Raises e \<longrightarrow> e = ValueError" by simp
next
  assume "\<forall>l \<in> set msb_listens. \<forall>e. from_json env l = Raises e \<longrightarrow> e = ValueError"
  from parse_listens_total [OF this, of "[]"]
  show "parse_listens env msb_listens [] = Inr (parsed env msb_listens)" by simp
next
  fix listens evs1
  assume "py_iter body = Inr listens
          \<and> enrich_chunks env (chunked listens (MAX_ITEMS_PER_MESSYBRAINZ_LOOKUP env)) [] = (evs1, Inr msb_listens)"
  then show "submit_of env body = (evs1, parse_listens env msb_listens [])"
    by (simp add: submit_of_def)
next
  fix evs s' r evs1 submit
  assume a: "callback env s delivery_tag body = Some (evs, s', r)
          \<and> submit_of env body = (evs1, Inr submit)"
  then have ret: "callback env s delivery_tag body = Some (evs, s', r)"
    and prep: "submit_of env body = (evs1, Inr submit)" by simp_all
  have acc: "incoming_listens s2 + emitted_incoming evs2 = incoming_listens s + int (length b)"
    if "insert_to_listenstore env s b = Some (evs2, s2, r2)" for b evs2 s2 r2
    using insert_accounting(1,2) [OF that] by (simp split: if_splits)
  from ret show "\<exists>evs2 s2 r2 evs3. insert_to_listenstore env s submit = Some (evs2, s2, r2)
           \<and> evs = evs1 @ evs2 @ evs3
           \<and> filter is_log evs3 = [] \<and> attempted evs3 = 0 \<and> filter is_metrics evs3 = []
           \<and> incoming_listens s2 + emitted_incoming evs2 = incoming_listens s + int (length submit)
           \<and> incoming_listens s' = incoming_listens s2 \<and> unique_listens s' = unique_listens s2
           \<and> metric_submission_time s' = metric_submission_time s2"
  proof (cases rule: callback_outcomes)
    case (prepare_raised e)
    with prep show ?thesis by simp
  next
    case (insert_raised evs1' submit' evs2 e)
    with prep acc [OF insert_raised(2)] show ?thesis
      by (intro exI [of _ evs2] exI [of _ s'] exI [of _ "Inl e"] exI [of _ "[]"]) simp
  next
    case (unacked evs1' submit' evs2)
    with prep acc [OF unacked(2)] show ?thesis
      by (intro exI [of _ evs2] exI [of _ s'] exI [of _ "Inr LISTEN_INSERT_ERROR_SENTINEL"] exI [of _ "[]"]) simp
  next
    case (ack_raised evs1' submit' evs2 s2 n k e)
    with prep acc [OF ack_raised(2)] show ?thesis
      by (intro exI [of _ evs2] exI [of _ s2] exI [of _ "Inr n"]
            exI [of _ "ack_retry_events delivery_tag s2 k @ [BasicAck (incoming_ch s2) delivery_tag (Some e)]"])
         simp
  next
    case (acked evs1' submit' evs2 s2 n k)
    with prep acc [OF acked(2)] show ?thesis
      by (intro exI [of _ evs2] exI [of _ s2] exI [of _ "Inr n"]
            exI [of _ "ack_retry_events delivery_tag s2 k @ [BasicAck (incoming_ch s2) delivery_tag None]"])
         simp
  qed
qed

lemmas callback_eval = callback_def submit_of_def chunked_unfold ack_loop.simps connect_to_rabbitmq_def

lemma submit_of_a: "submit_of env_ok (JArr [raw_a]) = ([SubmitListens [req_a] None], Inr [listen_a])"
  by (simp add: callback_eval json_eval fixture_defs)

lemma submit_of_d: "submit_of env_ok (JArr [raw_d]) = ([SubmitListens [req_d] None], Inr [])"
  by (simp add: callback_eval json_eval fixture_defs)

lemma submit_of_ad:
  "submit_of env_ok (JArr [raw_a, raw_d]) = ([SubmitListens [req_a, req_d] None], Inr [listen_a])"
  by (simp add: callback_eval json_eval fixture_defs)

lemma submit_of_a_down: "submit_of env_down (JArr [raw_a]) = ([SubmitListens [req_a] None], Inr [listen_a])"
  by (simp add: callback_eval json_eval fixture_defs)

lemma submit_of_a_closed_once:
  "submit_of env_closed_once (JArr [raw_a]) = ([SubmitListens [req_a] None], Inr [listen_a])"
  by (simp add: callback_eval json_eval fixture_defs)

lemma submit_of_a_redis_down:
  "submit_of env_redis_down (JArr [raw_a]) = ([SubmitListens [req_a] None], Inr [listen_a])"
  by (simp add: callback_eval json_eval fixture_defs)

lemma insert_redis_down_listen_a:
  "insert_to_listenstore env_redis_down s0 [listen_a] =
     Some ([LsInsert [listen_a] None, IncrementListenCountForDay 1 (Some OtherException),
            LogError ''Could not update listen count per day in redis'',
            BasicPublish 1 ''unique'' [listen_a] None,
            UpdateRecentListens [listen_a] (Some OtherException)],
           s0\<lparr>incoming_listens := 1\<rparr>, Inl OtherException)"
  by (simp add: insert_eval key_eval fixture_defs)

lemma insert_counter_down_listen_a:
  "insert_to_listenstore env_counter_down s0 [listen_a] =
     Some ([LsInsert [listen_a] None, IncrementListenCountForDay 1 (Some OtherException),
            LogError ''Could not update listen count per day in redis'',
            BasicPublish 1 ''unique'' [listen_a] None,
            UpdateRecentListens [listen_a] None],
           s0\<lparr>incoming_listens := 1, unique_listens := 1\<rparr>, Inr 1)"
  by (simp add: insert_eval key_eval fixture_defs)

lemma ack_ok: "ack_loop env_ok tag 0 evs s = Some (evs @ [BasicAck (incoming_ch s) tag None], s, None)"
  by (simp add: ack_loop.simps env_ok_def)

lemma ack_closed_once:
  "ack_loop env_closed_once tag 0 evs s =
     Some (evs @ [BasicAck (incoming_ch s) tag (Some ConnectionClosed), ConnectToRabbitmq,
                  BasicAck (incoming_ch s) tag None], connect_to_rabbitmq s, None)"
  by (simp add: ack_loop.simps env_closed_once_def env_ok_def)

lemma callback_closed_once_a:
  "callback env_closed_once s0 7 (JArr [raw_a]) =
     Some ([SubmitListens [req_a] None, LsInsert [listen_a] None, IncrementListenCountForDay 1 None,
            BasicPublish 1 ''unique'' [listen_a] (Some ConnectionClosed), ConnectToRabbitmq,
            BasicPublish 1 ''unique'' [listen_a] None, UpdateRecentListens [listen_a] None,
            BasicAck 1 7 (Some ConnectionClosed), ConnectToRabbitmq, BasicAck 1 7 None],
           s0\<lparr>connection := 3, incoming_listens := 1, unique_listens := 1\<rparr>, Inr 1)"
  by (simp add: callback_def submit_of_a_closed_once insert_closed_once_listen_a ack_closed_once
        LISTEN_INSERT_ERROR_SENTINEL_def)
     (simp add: s0_def connect_to_rabbitmq_def)

lemma callback_down_a:
  "callback env_down s0 7 (JArr [raw_a]) =
     Some ([SubmitListens [req_a] None, LsInsert [listen_a] (Some OperationalError),
            LogError ''Cannot write data to listenstore: %s. Sleep.'', Sleep 3],
           s0\<lparr>incoming_listens := 1\<rparr>, Inr LISTEN_INSERT_ERROR_SENTINEL)"
  by (simp add: callback_def submit_of_a_down insert_down_listen_a LISTEN_INSERT_ERROR_SENTINEL_def)

lemma callback_redis_down_a:
  "callback env_redis_down s0 7 (JArr [raw_a]) =
     Some ([SubmitListens [req_a] None, LsInsert [listen_a] None,
            IncrementListenCountForDay 1 (Some OtherException),
            LogError ''Could not update listen count per day in redis'',
            BasicPublish 1 ''unique'' [listen_a] None,
            UpdateRecentListens [listen_a] (Some OtherException)],
           s0\<lparr>incoming_listens := 1\<rparr>, Inl OtherException)"
  by (simp add: callback_def submit_of_a_redis_down insert_redis_down_listen_a)

lemma callback_ok_d:
  "callback env_ok s0 7 (JArr [raw_d]) =
     Some ([SubmitListens [req_d] None, BasicAck 1 7 None], s0, Inr 0)"
  by (simp add: callback_def submit_of_d insert_empty ack_ok LISTEN_INSERT_ERROR_SENTINEL_def)
     (simp add: s0_def)

lemma callback_ok_ad:
  "callback env_ok s0 7 (JArr [raw_a, raw_d]) =
     Some ([SubmitListens [req_a, req_d] None, LsInsert [listen_a] None, IncrementListenCountForDay 1 None,
            BasicPublish 1 ''unique'' [listen_a] None, UpdateRecentListens [listen_a] None,
            BasicAck 1 7 None],
           s0\<lparr>incoming_listens := 1, unique_listens := 1\<rparr>, Inr 1)"
  by (simp add: callback_def submit_of_ad insert_ok_listen_a ack_ok LISTEN_INSERT_ERROR_SENTINEL_def)
     (simp add: s0_def)

text \<open>
  Claim C1 at concrete inputs: an acknowledgment that succeeds at the second attempt, and a
  storage that is down.
\<close>

theorem ack_iff_no_transient_failure_witness:
  "callback env_closed_once s0 7 (JArr [raw_a]) =
     Some ([SubmitListens [req_a] None, LsInsert [listen_a] None, IncrementListenCountForDay 1 None,
            BasicPublish 1 ''unique'' [listen_a] (Some ConnectionClosed), ConnectToRabbitmq,
            BasicPublish 1 ''unique'' [listen_a] None, UpdateRecentListens [listen_a] None,
            BasicAck 1 7 (Some ConnectionClosed), ConnectToRabbitmq, BasicAck 1 7 None],
           s0\<lparr>connection := 3, incoming_listens := 1, unique_listens := 1\<rparr>, Inr 1)
   \<and> 1 \<noteq> LISTEN_INSERT_ERROR_SENTINEL
   \<and> filter (is_ack 7)
        [SubmitListens [req_a] None, LsInsert [listen_a] None, IncrementListenCountForDay 1 None,
         BasicPublish 1 ''unique'' [listen_a] (Some ConnectionClosed), ConnectToRabbitmq,
         BasicPublish 1 ''unique'' [listen_a] None, UpdateRecentListens [listen_a] None,
         BasicAck 1 7 (Some ConnectionClosed), ConnectToRabbitmq, BasicAck 1 7 None]
       = [BasicAck 1 7 None]
   \<and> callback env_down s0 7 (JArr [raw_a]) =
     Some ([SubmitListens [req_a] None, LsInsert [listen_a] (Some OperationalError),
            LogError ''Cannot write data to listenstore: %s. Sleep.'', Sleep 3],
           s0\<lparr>incoming_listens := 1\<rparr>, Inr LISTEN_INSERT_ERROR_SENTINEL)
   \<and> filter is_ack_attempt
        [SubmitListens [req_a] None, LsInsert [listen_a] (Some OperationalError),
         LogError ''Cannot write data to listenstore: %s. Sleep.'', Sleep 3] = []
   \<and> ack_closed_until env_closed_once 0 1 \<and> basic_ack env_closed_once 1 = Returns ()"
proof -
  note once = ack_iff_no_transient_failure [of env_closed_once s0 7 "JArr [raw_a]"]
  note down = ack_iff_no_transient_failure [of env_down s0 7 "JArr [raw_a]"]
  have k: "ack_closed_until env_closed_once 0 1 \<and> basic_ack env_closed_once 1 = Returns ()"
    by (simp add: ack_closed_until_def fixture_defs)
  have pre: "submit_of env_closed_once (JArr [raw_a]) = ([SubmitListens [req_a] None], Inr [listen_a])
      \<and> insert_to_listenstore env_closed_once s0 [listen_a] =
     Some ([LsInsert [listen_a] None, IncrementListenCountForDay 1 None,
            BasicPublish 1 ''unique'' [listen_a] (Some ConnectionClosed), ConnectToRabbitmq,
            BasicPublish 1 ''unique'' [listen_a] None, UpdateRecentListens [listen_a] None],
           s0\<lparr>connection := 2, incoming_listens := 1, unique_listens := 1\<rparr>, Inr 1)"
    by (simp add: submit_of_a_closed_once insert_closed_once_listen_a)
  have one: "(1 :: int) \<noteq> LISTEN_INSERT_ERROR_SENTINEL" by (simp add: LISTEN_INSERT_ERROR_SENTINEL_def)
  from once pre one k have "\<exists>evs s'. callback env_closed_once s0 7 (JArr [raw_a]) = Some (evs, s', Inr 1)"
    by blast
  with callback_closed_once_a once one
  have acked: "filter (is_ack 7)
        [SubmitListens [req_a] None, LsInsert [listen_a] None, IncrementListenCountForDay 1 None,
         BasicPublish 1 ''unique'' [listen_a] (Some ConnectionClosed), ConnectToRabbitmq,
         BasicPublish 1 ''unique'' [listen_a] None, UpdateRecentListens [listen_a] None,
         BasicAck 1 7 (Some ConnectionClosed), ConnectToRabbitmq, BasicAck 1 7 None]
       = [BasicAck 1 7 None]"
    by simp
  from down callback_down_a
  have unacked: "filter is_ack_attempt
        [SubmitListens [req_a] None, LsInsert [listen_a] (Some OperationalError),
         LogError ''Cannot write data to listenstore: %s. Sleep.'', Sleep 3] = []"
    by simp
  from callback_closed_once_a one acked callback_down_a unacked k show ?thesis by simp
qed

lemma enrich_d:
  "enrich_chunks env_ok (chunked [raw_d] 2) [] = ([SubmitListens [req_d] None], Inr [aug_d])"
  by (simp add: chunked_unfold json_eval fixture_defs)

lemma enrich_ad:
  "enrich_chunks env_ok (chunked [raw_a, raw_d] 2) [] = ([SubmitListens [req_a, req_d] None], Inr [aug_a, aug_d])"
  by (simp add: chunked_unfold json_eval fixture_defs)

lemma to_listen_a: "from_json env_ok aug_a = Returns listen_a"
  by (simp add: json_eval fixture_defs)

lemma to_listen_d: "from_json env_ok aug_d = Raises ValueError"
  by (simp add: json_eval fixture_defs)

text \<open>
  Claim C7 as stated fails: the one record of the batch is enriched and fails to convert. The
  callback ends with the subscriber as it was and with two events, the lookup and the
  acknowledgment: no counter and no event records the drop.
\<close>

theorem dropped_record_is_not_counted:
  "enrich_chunks env_ok (chunked [raw_d] 2) [] = ([SubmitListens [req_d] None], Inr [aug_d])
   \<and> from_json env_ok aug_d = Raises ValueError
   \<and> parse_listens env_ok [aug_d] [] = Inr []
   \<and> callback env_ok s0 7 (JArr [raw_d]) =
       Some ([SubmitListens [req_d] None, BasicAck 1 7 None], s0, Inr 0)"
  by (simp add: enrich_d to_listen_d callback_ok_d)

text \<open>Claim C7, as amended, at a batch of two records of which the second fails to convert.\<close>

theorem parse_failures_dropped_silently_witness:
  "parse_listens env_ok [aug_a, aug_d] [] = Inr [listen_a]
   \<and> parsed env_ok [aug_a, aug_d] = [listen_a]
   \<and> from_json env_ok aug_d = Raises ValueError
   \<and> submit_of env_ok (JArr [raw_a, raw_d]) = ([SubmitListens [req_a, req_d] None], Inr [listen_a])
   \<and> callback env_ok s0 7 (JArr [raw_a, raw_d]) =
       Some ([SubmitListens [req_a, req_d] None, LsInsert [listen_a] None, IncrementListenCountForDay 1 None,
              BasicPublish 1 ''unique'' [listen_a] None, UpdateRecentListens [listen_a] None,
              BasicAck 1 7 None],
             s0\<lparr>incoming_listens := 1, unique_listens := 1\<rparr>, Inr 1)
   \<and> incoming_listens (s0\<lparr>incoming_listens := 1, unique_listens := 1\<rparr>) = incoming_listens s0 + int (length [listen_a])"
proof -
  note t = parse_failures_dropped_silently [of env_ok "[aug_a, aug_d]" "JArr [raw_a, raw_d]" s0 7]
  have ok: "\<forall>l \<in> set [aug_a, aug_d]. \<forall>e. from_json env_ok l = Raises e \<longrightarrow> e = ValueError"
    by (simp add: to_listen_a to_listen_d)
  with t have p: "parse_listens env_ok [aug_a, aug_d] [] = Inr (parsed env_ok [aug_a, aug_d])" by blast
  have v: "parsed env_ok [aug_a, aug_d] = [listen_a]"
    by (simp add: parsed_def to_listen_a to_listen_d)
  have "py_iter (JArr [raw_a, raw_d]) = Inr [raw_a, raw_d]
      \<and> enrich_chunks env_ok (chunked [raw_a, raw_d] (MAX_ITEMS_PER_MESSYBRAINZ_LOOKUP env_ok)) []
          = ([SubmitListens [req_a, req_d] None], Inr [aug_a, aug_d])"
    using enrich_ad by (simp add: py_iter_def env_ok_def)
  with t have "submit_of env_ok (JArr [raw_a, raw_d])
      = ([SubmitListens [req_a, req_d] None], parse_listens env_ok [aug_a, aug_d] [])"
    by blast
  with p v callback_ok_ad to_listen_d show ?thesis by (simp add: s0_def)
qed

text \<open>
  Claim C4 at a concrete input. When the per-day counter raises, the insertion logs it and
  goes on to return the length of the batch. When the recent-listens update raises, the
  exception leaves the insertion and the callback: nothing is returned and the message is not
  acknowledged.
\<close>

theorem cache_update_failure_leaves_the_insertion:
  "insert_to_listenstore env_counter_down s0 [listen_a] =
     Some ([LsInsert [listen_a] None, IncrementListenCountForDay 1 (Some OtherException),
            LogError ''Could not update listen count per day in redis'',
            BasicPublish 1 ''unique'' [listen_a] None,
            UpdateRecentListens [listen_a] None],
           s0\<lparr>incoming_listens := 1, unique_listens := 1\<rparr>, Inr 1)
   \<and> insert_to_listenstore env_redis_down s0 [listen_a] =
     Some ([LsInsert [listen_a] None, IncrementListenCountForDay 1 (Some OtherException),
            LogError ''Could not update listen count per day in redis'',
            BasicPublish 1 ''unique'' [listen_a] None,
            UpdateRecentListens [listen_a] (Some OtherException)],
           s0\<lparr>incoming_listens := 1\<rparr>, Inl OtherException)
   \<and> callback env_redis_down s0 7 (JArr [raw_a]) =
     Some ([SubmitListens [req_a] None, LsInsert [listen_a] None,
            IncrementListenCountForDay 1 (Some OtherException),
            LogError ''Could not update listen count per day in redis'',
            BasicPublish 1 ''unique'' [listen_a] None,
            UpdateRecentListens [listen_a] (Some OtherException)],
           s0\<lparr>incoming_listens := 1\<rparr>, Inl OtherException)"
  by (simp add: insert_counter_down_listen_a insert_redis_down_listen_a callback_redis_down_a)

end
